theory Spec2Isabelle
  imports Complex_Main "HOL-Library.Word"
begin

section \<open>Data model of divelist.c\<close>

text \<open>
  The dive list of subsurface (divelist.c) over the structures of dive.h. C \<open>int\<close>
  fields are modelled as \<open>int\<close>; the only place where the source does 32-bit arithmetic
  whose overflow could change a result, the subtractions of the gas sort function, has the
  wrap-around written out (\<open>int_sub\<close>). C \<open>double\<close> is modelled as \<open>real\<close>: rounding
  is not modelled, the conversions to \<open>int\<close> are. Pointers that may be NULL are options.
\<close>

datatype error = NullDereference | ConversionUndefined

datatype tripflag_t = TF_NONE | NO_TRIP | IN_TRIP

text \<open>
  \<open>cylinder_t\<close>: \<open>type.size.mliter\<close>, \<open>type.workingpressure.mbar\<close>, \<open>type.description\<close>,
  \<open>gasmix.o2.permille\<close>, \<open>gasmix.he.permille\<close> and the four pressures \<open>start\<close>, \<open>end\<close>,
  \<open>sample_start\<close>, \<open>sample_end\<close> (in mbar).
\<close>

record cylinder_t =
  size_mliter :: int
  workingpressure_mbar :: int
  description :: "string option"
  o2_permille :: int
  he_permille :: int
  start_mbar :: int
  end_mbar :: int
  sample_start_mbar :: int
  sample_end_mbar :: int

record sample_t =
  time_seconds :: int
  depth_mm :: int

text \<open>
  \<open>struct dive\<close>, with the fields divelist.c reads or writes. The arrays \<open>cylinder\<close>
  (of \<open>MAX_CYLINDERS\<close> slots) and \<open>weightsystem\<close> are lists holding every slot, and
  \<open>sample\<close> is the list of the \<open>dive->samples\<close> samples, so \<open>samples = length sample\<close>.
  A trip is a \<open>struct dive\<close> too (\<open>alloc_dive\<close>): its \<open>number\<close> counts the dives of the
  trip and its \<open>dive_when\<close> (the field \<open>when\<close>) is the trip's date.
\<close>

record dive =
  number :: int
  tripflag :: tripflag_t
  selected :: bool
  dive_when :: int
  location :: "string option"
  suit :: "string option"
  rating :: int
  maxdepth_mm :: int
  meandepth_mm :: int
  duration_seconds :: int
  watertemp_mkelvin :: int
  sac :: int
  otu :: int
  cylinder :: "cylinder_t list"
  weightsystem_grams :: "int list"
  sample :: "sample_t list"

text \<open>
  Modelled from the spec: \<open>AIR_PERMILLE\<close> is a macro of dive.h, which is not among the
  sources; the spec gives the air baseline as 209 permille.
\<close>

definition AIR_PERMILLE :: int where
  "AIR_PERMILLE = 209"

text \<open>
  Modelled from the spec: \<open>cylinder_none\<close> is defined outside divelist.c. The spec speaks
  of empty and non-empty cylinder slots; a slot is empty when nothing is recorded in it,
  that is when every field of the \<open>cylinder_t\<close> is zero or NULL.
\<close>

definition cylinder_none :: "cylinder_t \<Rightarrow> bool" where
  "cylinder_none cyl =
     (size_mliter cyl = 0 \<and> workingpressure_mbar cyl = 0 \<and> description cyl = None \<and>
      o2_permille cyl = 0 \<and> he_permille cyl = 0 \<and>
      sample_start_mbar cyl = 0 \<and> sample_end_mbar cyl = 0 \<and>
      start_mbar cyl = 0 \<and> end_mbar cyl = 0)"

section \<open>Statistics\<close>

subsection \<open>get_dive_gas\<close>

text \<open>
  The loop of \<open>get_dive_gas\<close> over the cylinder slots; the accumulator is
  \<open>(maxo2, maxhe, mino2)\<close>. The three \<open>continue\<close>s and the \<open>goto newmax\<close> are the branches.
\<close>

fun gas_loop :: "cylinder_t list \<Rightarrow> int \<times> int \<times> int \<Rightarrow> int \<times> int \<times> int" where
  "gas_loop [] acc = acc"
| "gas_loop (cyl # cyls) (maxo2, maxhe, mino2) =
     (if cylinder_none cyl then gas_loop cyls (maxo2, maxhe, mino2)
      else
        let o2 = (if o2_permille cyl = 0 then AIR_PERMILLE else o2_permille cyl);
            he = he_permille cyl;
            mino2' = (if o2 < mino2 then o2 else mino2)
        in if he > maxhe then gas_loop cyls (o2, he, mino2')
           else if he < maxhe then gas_loop cyls (maxo2, maxhe, mino2')
           else if o2 \<le> maxo2 then gas_loop cyls (maxo2, maxhe, mino2')
           else gas_loop cyls (o2, he, mino2'))"

text \<open>The result is the triple of the out-parameters \<open>(*o2_p, *he_p, *o2low_p)\<close>.\<close>

definition get_dive_gas :: "dive \<Rightarrow> int \<times> int \<times> int" where
  "get_dive_gas d =
     (case gas_loop (cylinder d) (-1, -1, 1000) of
        (maxo2, maxhe, mino2) \<Rightarrow>
          if maxhe = 0 \<and> maxo2 = AIR_PERMILLE \<and> mino2 = maxo2 then (0, maxhe, 0)
          else (maxo2, maxhe, mino2))"

subsection \<open>The dive store\<close>

text \<open>
  Modelled from the spec: \<open>dive_table\<close> and \<open>get_dive\<close> belong to dive.h, which is not
  among the sources. The spec gives \<open>get_dive(index) -> DiveRecord | null\<close> over an
  ordered sequence of records with \<open>record_count()\<close> entries: the table is the list of
  its dives, \<open>dive_table.nr\<close> its length, and \<open>get_dive\<close> is NULL outside \<open>0 .. nr - 1\<close>.
  A pointer to a dive of the table is modelled by the dive's index.
\<close>

definition get_dive :: "dive list \<Rightarrow> int \<Rightarrow> dive option" where
  "get_dive dive_table idx =
     (if 0 \<le> idx \<and> idx < int (length dive_table) then Some (dive_table ! nat idx) else None)"

subsection \<open>nitrox_sort_func\<close>

text \<open>
  The subtraction of two C \<open>int\<close>s, wrapping around at 32 bits (the overflow itself is
  undefined in C; two's complement is what the compiled code does).
\<close>

definition int_sub :: "int \<Rightarrow> int \<Rightarrow> int" where
  "int_sub a b = sint (word_of_int a - word_of_int b :: 32 word)"

text \<open>
  \<open>index_a\<close> and \<open>index_b\<close> are the \<open>DIVE_INDEX\<close> columns of the two rows.
  \<open>get_dive_gas\<close> dereferences its dive, so a NULL from \<open>get_dive\<close> is a NULL dereference.
\<close>

definition nitrox_sort_func :: "dive list \<Rightarrow> int \<Rightarrow> int \<Rightarrow> error + int" where
  "nitrox_sort_func dive_table index_a index_b =
     (case get_dive dive_table index_a of
        None \<Rightarrow> Inl NullDereference
      | Some a \<Rightarrow>
          (case get_dive dive_table index_b of
             None \<Rightarrow> Inl NullDereference
           | Some b \<Rightarrow>
               (case get_dive_gas a of
                  (a_o2, a_he, a_o2low) \<Rightarrow>
                    (case get_dive_gas b of
                       (b_o2, b_he, b_o2low) \<Rightarrow>
                         Inr (if a_he = b_he then
                                (if a_o2 = b_o2 then int_sub a_o2low b_o2low
                                 else int_sub a_o2 b_o2)
                              else int_sub a_he b_he)))))"

subsection \<open>calculate_airuse\<close>

text \<open>
  Modelled from the spec: \<open>to_ATM\<close> is an inline function of dive.h, which is not among
  the sources; the spec speaks of the pressure in atm, and one standard atmosphere is
  1013.25 mbar. The argument is the \<open>mbar\<close> field of the \<open>pressure_t\<close>.
\<close>

definition to_ATM :: "int \<Rightarrow> real" where
  "to_ATM mbar = real_of_int mbar / 1013.25"

fun airuse_loop :: "cylinder_t list \<Rightarrow> real \<Rightarrow> real" where
  "airuse_loop [] airuse = airuse"
| "airuse_loop (cyl # cyls) airuse =
     (let size = size_mliter cyl in
      if size = 0 then airuse_loop cyls airuse
      else
        let start = (if start_mbar cyl \<noteq> 0 then start_mbar cyl else sample_start_mbar cyl);
            end' = (if end_mbar cyl \<noteq> 0 then end_mbar cyl else sample_end_mbar cyl);
            kilo_atm = (to_ATM start - to_ATM end') / 1000
        in airuse_loop cyls (airuse + kilo_atm * real_of_int size))"

definition calculate_airuse :: "dive \<Rightarrow> real" where
  "calculate_airuse d = airuse_loop (cylinder d) 0"

subsection \<open>calculate_sac\<close>

text \<open>
  The inner \<open>while\<close> of the surface-interval loop: from \<open>end\<close>, the first index that is
  past the samples or whose depth is not below 100 mm.
\<close>

function scan_end :: "sample_t list \<Rightarrow> nat \<Rightarrow> nat" where
  "scan_end ss end' =
     (if end' < length ss \<and> depth_mm (ss ! end') < 100 then scan_end ss (end' + 1) else end')"
  by pat_completeness auto
termination
  by (relation "measure (\<lambda>(ss, end'). length ss - end')") auto

declare scan_end.simps [simp del]

lemma scan_end_ge: "end' \<le> scan_end ss end'"
proof (induction ss end' rule: scan_end.induct)
  case (1 ss end')
  show ?case
  proof (cases "end' < length ss \<and> depth_mm (ss ! end') < 100")
    case True
    with 1 have "end' + 1 \<le> scan_end ss (end' + 1)" by simp
    with True show ?thesis by (simp add: scan_end.simps [of ss end'])
  next
    case False
    then show ?thesis by (auto simp add: scan_end.simps [of ss end'])
  qed
qed

text \<open>
  The \<open>for\<close> loop "find and eliminate long surface intervals", with the loop variable
  \<open>i\<close> and the running \<open>duration\<close>. In the branch that subtracts, the source sets
  \<open>end--\<close>, \<open>i = end + 1\<close> and then the loop's \<open>i++\<close> runs: the next index is one past
  the value \<open>end\<close> had on leaving the \<open>while\<close>.
\<close>

function surface_loop :: "sample_t list \<Rightarrow> nat \<Rightarrow> int \<Rightarrow> int" where
  "surface_loop ss i duration =
     (if i < length ss then
        (if depth_mm (ss ! i) < 100 then
           (let end' = scan_end ss (i + 1) in
            if end' < length ss then
              surface_loop ss (end' - 1 + 1 + 1)
                (duration - (time_seconds (ss ! (end' - 1)) - time_seconds (ss ! i)))
            else surface_loop ss (i + 1) duration)
         else surface_loop ss (i + 1) duration)
      else duration)"
  by pat_completeness auto
termination
proof (relation "measure (\<lambda>(ss, i, duration). length ss - i)", goal_cases)
  case 1
  show ?case by simp
next
  case (2 ss i duration end')
  have "i + 1 \<le> scan_end ss (i + 1)" by (rule scan_end_ge)
  with 2 show ?case by simp
next
  case 3
  then show ?case by simp
next
  case 4
  then show ?case by simp
qed

declare surface_loop.simps [simp del]

text \<open>The C conversion from \<open>double\<close> to \<open>int\<close> truncates towards zero.\<close>

definition double_to_int :: "real \<Rightarrow> int" where
  "double_to_int x = (if 0 \<le> x then \<lfloor>x\<rfloor> else \<lceil>x\<rceil>)"

text \<open>
  \<open>calculate_sac\<close>. Where the adjusted duration or the mean pressure is 0 the quotient
  is not a finite \<open>double\<close>, and where the result does not fit an \<open>int\<close> the conversion of
  the \<open>return\<close> is undefined in C: both are the error \<open>ConversionUndefined\<close>.
\<close>

definition calculate_sac :: "dive \<Rightarrow> error + int" where
  "calculate_sac d =
     (let airuse = calculate_airuse d in
      if airuse = 0 then Inr 0
      else if duration_seconds d = 0 then Inr 0
      else
        let duration = surface_loop (sample d) 0 (duration_seconds d);
            pressure = 1 + real_of_int (meandepth_mm d) / 10000
        in if duration = 0 \<or> pressure = 0 then Inl ConversionUndefined
           else
             let sac = airuse / pressure * 60 / real_of_int duration;
                 r = double_to_int (sac * 1000)
             in if - (2 ^ 31) \<le> r \<and> r < 2 ^ 31 then Inr r else Inl ConversionUndefined)"


subsection \<open>Notions used to state the properties of the statistics\<close>

text \<open>
  The key the gas column sorts by, in the order of the comparison: helium, then the
  maximal oxygen, then the minimal oxygen of \<open>get_dive_gas\<close>; and the strict
  lexicographic order on such keys.
\<close>

definition gas_key :: "dive \<Rightarrow> int \<times> int \<times> int" where
  "gas_key d = (case get_dive_gas d of (o2, he, o2low) \<Rightarrow> (he, o2, o2low))"

definition gas_lex_less :: "int \<times> int \<times> int \<Rightarrow> int \<times> int \<times> int \<Rightarrow> bool" where
  "gas_lex_less x y =
     (case x of (he, o2, o2low) \<Rightarrow> case y of (he', o2', o2low') \<Rightarrow>
        he < he' \<or> (he = he' \<and> (o2 < o2' \<or> (o2 = o2' \<and> o2low < o2low'))))"

text \<open>A dive whose gas mixes are fractions: every permille value lies in \<open>0 .. 1000\<close>.\<close>

definition permille_ok :: "dive \<Rightarrow> bool" where
  "permille_ok d = list_all (\<lambda>c. 0 \<le> o2_permille c \<and> o2_permille c \<le> 1000 \<and>
       0 \<le> he_permille c \<and> he_permille c \<le> 1000) (cylinder d)"

subsection \<open>Concrete dives\<close>

text \<open>
  Modelled from the spec: \<open>alloc_dive\<close> and the macros \<open>MAX_CYLINDERS\<close> and
  \<open>MAX_WEIGHTSYSTEMS\<close> are defined outside divelist.c. \<open>alloc_dive\<close> returns a zeroed
  \<open>struct dive\<close> ("all fields default to 0", as \<open>fill_dive_list\<close> says of it), every
  cylinder slot of which is empty. The spec gives no numbers of slots; 8 and 4 stand for
  them, and no result below depends on them.
\<close>

definition empty_cylinder :: cylinder_t where
  "empty_cylinder = \<lparr>size_mliter = 0, workingpressure_mbar = 0, description = None,
     o2_permille = 0, he_permille = 0, start_mbar = 0, end_mbar = 0,
     sample_start_mbar = 0, sample_end_mbar = 0\<rparr>"

definition MAX_CYLINDERS :: nat where
  "MAX_CYLINDERS = 8"

definition MAX_WEIGHTSYSTEMS :: nat where
  "MAX_WEIGHTSYSTEMS = 4"

definition alloc_dive :: dive where
  "alloc_dive = \<lparr>number = 0, tripflag = TF_NONE, selected = False, dive_when = 0,
     location = None, suit = None, rating = 0, maxdepth_mm = 0, meandepth_mm = 0,
     duration_seconds = 0, watertemp_mkelvin = 0, sac = 0, otu = 0,
     cylinder = replicate MAX_CYLINDERS empty_cylinder,
     weightsystem_grams = replicate MAX_WEIGHTSYSTEMS 0, sample = []\<rparr>"

definition filled_cylinder :: "int \<Rightarrow> int \<Rightarrow> int \<Rightarrow> int \<Rightarrow> int \<Rightarrow> cylinder_t" where
  "filled_cylinder o2 he sz start end' =
     empty_cylinder\<lparr>size_mliter := sz, o2_permille := o2, he_permille := he,
       start_mbar := start, end_mbar := end'\<rparr>"

definition air_dive :: dive where
  "air_dive = alloc_dive\<lparr>duration_seconds := 1800, meandepth_mm := 10000,
     cylinder := [filled_cylinder 209 0 12000 200000 50000, filled_cylinder 0 0 10000 0 0,
                  empty_cylinder]\<rparr>"

definition nitrox_dive :: dive where
  "nitrox_dive = alloc_dive\<lparr>cylinder := [filled_cylinder 320 0 12000 200000 50000, empty_cylinder]\<rparr>"

definition trimix_dive :: dive where
  "trimix_dive = alloc_dive\<lparr>cylinder := [filled_cylinder 180 450 12000 200000 50000,
     filled_cylinder 500 0 7000 200000 150000]\<rparr>"

subsection \<open>The surface intervals that calculate_sac leaves out, as the spec words them\<close>

text \<open>
  A sample is near the surface when its depth is below 100 mm. \<open>surface_runs\<close>
  cuts the samples into their maximal contiguous runs of samples that are all near the
  surface or all deeper: a run takes every following sample of the same kind.
  \<open>excised_time\<close> adds up the lengths (time of the last sample minus time of the first)
  of the near-surface runs that end before the last sample, that is of every near-surface
  run but a final one.
\<close>

definition near_surface :: "sample_t \<Rightarrow> bool" where
  "near_surface s = (depth_mm s < 100)"

function surface_runs :: "sample_t list \<Rightarrow> sample_t list list" where
  "surface_runs [] = []"
| "surface_runs (x # xs) =
     (x # takeWhile (\<lambda>y. near_surface y = near_surface x) xs) #
     surface_runs (dropWhile (\<lambda>y. near_surface y = near_surface x) xs)"
  by pat_completeness auto
termination
  by (relation "measure length") (auto simp: length_dropWhile_le le_imp_less_Suc)

definition excised_time :: "sample_t list \<Rightarrow> int" where
  "excised_time ss =
     (\<Sum>run\<leftarrow>butlast (surface_runs ss).
        if near_surface (hd run) then time_seconds (last run) - time_seconds (hd run) else 0)"

definition surface_dive :: dive where
  "surface_dive = alloc_dive\<lparr>duration_seconds := 100, meandepth_mm := 5000,
     cylinder := [filled_cylinder 209 0 12000 200000 50000],
     sample := [\<lparr>time_seconds = 0, depth_mm = 0\<rparr>, \<lparr>time_seconds = 10, depth_mm = 50\<rparr>,
       \<lparr>time_seconds = 20, depth_mm = 5000\<rparr>, \<lparr>time_seconds = 30, depth_mm = 8000\<rparr>,
       \<lparr>time_seconds = 40, depth_mm = 20\<rparr>, \<lparr>time_seconds = 55, depth_mm = 30\<rparr>,
       \<lparr>time_seconds = 60, depth_mm = 6000\<rparr>, \<lparr>time_seconds = 70, depth_mm = 10\<rparr>,
       \<lparr>time_seconds = 100, depth_mm = 0\<rparr>]\<rparr>"

section \<open>The tree models and the selection\<close>

text \<open>
  A row of a \<open>GtkTreeStore\<close> with the columns of the \<open>enum\<close> of divelist.c and its
  child rows; a store is the list of its top-level rows. A row that was appended and not
  yet set holds 0 and NULL. A \<open>GtkTreeIter\<close> is the path of its row: the position among
  the top-level rows, then the positions among the children.
\<close>

record columns =
  DIVE_INDEX :: int
  DIVE_NR :: int
  DIVE_DATE :: int
  DIVE_RATING :: int
  DIVE_DEPTH :: int
  DIVE_DURATION :: int
  DIVE_TEMPERATURE :: int
  DIVE_TOTALWEIGHT :: int
  DIVE_SUIT :: "string option"
  DIVE_CYLINDER :: "string option"
  DIVE_SAC :: int
  DIVE_OTU :: int
  DIVE_LOCATION :: "string option"

datatype row = Row (row_columns: columns) (row_children: "row list")

type_synonym iter = "nat list"

datatype model_id = TreeModel | ListModel

text \<open>
  The globals of the dive list: \<open>dive_table\<close>, \<open>amount_selected\<close> and
  \<open>selected_dive\<close> (of dive.h and display.h), the two stores of \<open>dive_list\<close>, which of
  them \<open>dive_list.model\<close> points to, the \<open>GtkTreeSelection\<close> of the tree view as the
  set of the selected iters, the flag \<open>autogroup\<close> and the trips. A trip is a
  \<open>struct dive\<close> on the heap: \<open>trips\<close> maps the address of a trip to its contents,
  \<open>trips_allocated\<close> is the next address \<open>alloc_dive\<close> hands out, and the \<open>GList\<close>
  \<open>dive_trip_list\<close> is the list of the addresses it holds. The signals GTK emits when
  the selection changes are outside this model: each callback is a function of the state
  it is called in.
\<close>

record state =
  dive_table :: "dive list"
  amount_selected :: int
  selected_dive :: int
  treemodel :: "row list"
  listmodel :: "row list"
  model :: model_id
  gtk_selection :: "iter set"
  autogroup :: bool
  dive_trip_list :: "nat list"
  trips :: "nat \<Rightarrow> dive"
  trips_allocated :: nat

definition the_model :: "state \<Rightarrow> model_id \<Rightarrow> row list" where
  "the_model st m = (case m of TreeModel \<Rightarrow> treemodel st | ListModel \<Rightarrow> listmodel st)"

fun row_at :: "row list \<Rightarrow> iter \<Rightarrow> row option" where
  "row_at rows [] = None"
| "row_at rows [k] = (if k < length rows then Some (rows ! k) else None)"
| "row_at rows (k # p) = (if k < length rows then row_at (row_children (rows ! k)) p else None)"

text \<open>
  \<open>gtk_tree_model_iter_children\<close> followed by \<open>gtk_tree_model_iter_next\<close> until it
  fails: the iters of the children of a row, in order, each with the \<open>DIVE_INDEX\<close> that
  \<open>gtk_tree_model_get\<close> reads from it. The list is empty when the row has no child.
\<close>

definition iter_children :: "row list \<Rightarrow> iter \<Rightarrow> (iter \<times> int) list" where
  "iter_children rows it =
     (case row_at rows it of
        None \<Rightarrow> []
      | Some r \<Rightarrow>
          map (\<lambda>k. (it @ [k], DIVE_INDEX (row_columns (row_children r ! k))))
            [0..<length (row_children r)])"

subsection \<open>row_expanded_cb\<close>

text \<open>
  The \<open>do ... while\<close> over the children. \<open>dive->selected\<close> is read without a test of
  \<open>dive\<close>: a NULL from \<open>get_dive\<close> is a NULL dereference.
\<close>

fun row_expanded_loop :: "(iter \<times> int) list \<Rightarrow> state \<Rightarrow> error + state" where
  "row_expanded_loop [] st = Inr st"
| "row_expanded_loop ((child, idx) # rest) st =
     (case get_dive (dive_table st) idx of
        None \<Rightarrow> Inl NullDereference
      | Some d \<Rightarrow>
          if selected d
          then row_expanded_loop rest (st\<lparr>gtk_selection := insert child (gtk_selection st)\<rparr>)
          else row_expanded_loop rest (st\<lparr>gtk_selection := gtk_selection st - {child}\<rparr>))"

definition row_expanded_cb :: "iter \<Rightarrow> state \<Rightarrow> error + state" where
  "row_expanded_cb it st = row_expanded_loop (iter_children (the_model st (model st)) it) st"

subsection \<open>selected_children and row_collapsed_cb\<close>

fun selected_children_loop :: "(iter \<times> int) list \<Rightarrow> state \<Rightarrow> error + bool" where
  "selected_children_loop [] st = Inr False"
| "selected_children_loop ((child, idx) # rest) st =
     (case get_dive (dive_table st) idx of
        None \<Rightarrow> Inl NullDereference
      | Some d \<Rightarrow> if selected d then Inr True else selected_children_loop rest st)"

definition selected_children :: "model_id \<Rightarrow> iter \<Rightarrow> state \<Rightarrow> error + bool" where
  "selected_children m it st = selected_children_loop (iter_children (the_model st m) it) st"

definition row_collapsed_cb :: "iter \<Rightarrow> state \<Rightarrow> error + state" where
  "row_collapsed_cb it st =
     (case selected_children (model st) it st of
        Inl e \<Rightarrow> Inl e
      | Inr b \<Rightarrow> Inr (if b then st\<lparr>gtk_selection := insert it (gtk_selection st)\<rparr> else st))"

subsection \<open>select_dive and select_dive_group\<close>

text \<open>
  \<open>select_dive\<close> gets a pointer to a dive of the table: the index \<open>p\<close>. Its callers
  decide what a NULL is.
\<close>

definition select_dive :: "nat \<Rightarrow> bool \<Rightarrow> state \<Rightarrow> state" where
  "select_dive p sel st =
     (if selected (dive_table st ! p) \<noteq> sel
      then st\<lparr>amount_selected := amount_selected st + (if sel then 1 else - 1),
              dive_table := (dive_table st)[p := (dive_table st ! p)\<lparr>selected := sel\<rparr>]\<rparr>
      else st)"

text \<open>The \<open>do ... while\<close> of \<open>select_dive_group\<close>, with its variable \<open>first\<close>.\<close>

fun select_group_loop :: "(iter \<times> int) list \<Rightarrow> bool \<Rightarrow> bool \<Rightarrow> state \<Rightarrow> error + state" where
  "select_group_loop [] first sel st = Inr st"
| "select_group_loop ((child, idx) # rest) first sel st =
     (let st1 = (if first \<and> sel then st\<lparr>selected_dive := idx\<rparr> else st) in
      case get_dive (dive_table st1) idx of
        None \<Rightarrow> Inl NullDereference
      | Some d \<Rightarrow>
          if selected d = sel then select_group_loop rest False sel st1
          else
            let st2 = select_dive (nat idx) sel st1;
                st3 = (if sel then st2\<lparr>gtk_selection := insert child (gtk_selection st2)\<rparr>
                       else st2\<lparr>gtk_selection := gtk_selection st2 - {child}\<rparr>)
            in select_group_loop rest False sel st3)"

definition select_dive_group :: "model_id \<Rightarrow> iter \<Rightarrow> bool \<Rightarrow> state \<Rightarrow> error + state" where
  "select_dive_group m it sel st =
     (case selected_children m it st of
        Inl e \<Rightarrow> Inl e
      | Inr cur \<Rightarrow>
          if sel = cur then Inr st
          else select_group_loop (iter_children (the_model st m) it) True sel st)"

subsection \<open>check_selection_cb\<close>

text \<open>
  \<open>get_index\<close> is the \<open>gtk_tree_model_get\<close> of the column \<open>DIVE_INDEX\<close>. GTK hands the
  callbacks iters of rows of the model; for a path without a row the model leaves the
  state as it is. In the branch of a dive row \<open>select_dive\<close> dereferences \<open>dive\<close>
  without a test.
\<close>

definition get_index :: "row list \<Rightarrow> iter \<Rightarrow> int option" where
  "get_index rows it = map_option (\<lambda>r. DIVE_INDEX (row_columns r)) (row_at rows it)"

definition check_selection_cb :: "iter \<Rightarrow> state \<Rightarrow> error + state" where
  "check_selection_cb it st =
     (case get_index (the_model st (model st)) it of
        None \<Rightarrow> Inr st
      | Some idx \<Rightarrow>
          let gtk_selected = (it \<in> gtk_selection st) in
          if idx < 0 then select_dive_group (model st) it gtk_selected st
          else
            (case get_dive (dive_table st) idx of
               None \<Rightarrow> Inl NullDereference
             | Some d \<Rightarrow>
                 let st1 = select_dive (nat idx) gtk_selected st in
                 Inr (if gtk_selected then st1\<lparr>selected_dive := idx\<rparr> else st1)))"

subsection \<open>set_one_dive and fill_one_dive\<close>

definition get_string :: "string option \<Rightarrow> string option" where
  "get_string s = Some (take 60 (case s of None \<Rightarrow> [] | Some s' \<Rightarrow> s'))"

definition total_weight :: "dive option \<Rightarrow> int" where
  "total_weight d = (case d of None \<Rightarrow> 0 | Some d' \<Rightarrow> sum_list (weightsystem_grams d'))"

text \<open>
  \<open>gtk_tree_store_set\<close> on the row of an iter, and the iters of a store in the order
  \<open>gtk_tree_model_foreach\<close> visits them (a row before its children).
\<close>

fun update_row :: "(columns \<Rightarrow> columns) \<Rightarrow> iter \<Rightarrow> row list \<Rightarrow> row list" where
  "update_row f [] rows = rows"
| "update_row f [k] rows =
     (if k < length rows
      then rows[k := Row (f (row_columns (rows ! k))) (row_children (rows ! k))]
      else rows)"
| "update_row f (k # p) rows =
     (if k < length rows
      then rows[k := Row (row_columns (rows ! k)) (update_row f p (row_children (rows ! k)))]
      else rows)"

definition store_set :: "model_id \<Rightarrow> iter \<Rightarrow> (columns \<Rightarrow> columns) \<Rightarrow> state \<Rightarrow> state" where
  "store_set m it f st =
     (case m of
        TreeModel \<Rightarrow> st\<lparr>treemodel := update_row f it (treemodel st)\<rparr>
      | ListModel \<Rightarrow> st\<lparr>listmodel := update_row f it (listmodel st)\<rparr>)"

fun all_iters :: "iter \<Rightarrow> nat \<Rightarrow> row list \<Rightarrow> iter list" where
  "all_iters prefix k [] = []"
| "all_iters prefix k (Row c kids # rows) =
     (prefix @ [k]) # all_iters (prefix @ [k]) 0 kids @ all_iters prefix (Suc k) rows"

text \<open>The columns \<open>fill_one_dive\<close> sets, from the dive \<open>d\<close>.\<close>

definition fill_columns :: "dive \<Rightarrow> columns \<Rightarrow> columns" where
  "fill_columns d c =
     c\<lparr>DIVE_NR := number d,
       DIVE_LOCATION := get_string (location d),
       DIVE_CYLINDER := get_string (case cylinder d of [] \<Rightarrow> None | cyl # _ \<Rightarrow> description cyl),
       DIVE_RATING := rating d,
       DIVE_SAC := sac d,
       DIVE_OTU := otu d,
       DIVE_TOTALWEIGHT := total_weight (Some d),
       DIVE_SUIT := get_string (suit d)\<rparr>"

text \<open>
  \<open>set_one_dive\<close> and \<open>fill_one_dive\<close> call each other through
  \<open>gtk_tree_model_foreach\<close>, once at most: \<open>fill_one_dive\<close> walks the other model only
  when that is not \<open>dive_list.model\<close>, and for the rows of that other model the other
  model is \<open>dive_list.model\<close>. \<open>set_one_dive_other\<close> is \<open>set_one_dive\<close> on a row of the
  model that is not shown, where \<open>fill_one_dive\<close> only sets the columns; \<open>data\<close> is the
  pointer to a dive (its index) or NULL.
\<close>

definition set_one_dive_other :: "model_id \<Rightarrow> iter \<Rightarrow> nat option \<Rightarrow> state \<Rightarrow> bool \<times> state" where
  "set_one_dive_other m it data st =
     (case get_index (the_model st m) it of
        None \<Rightarrow> (False, st)
      | Some idx \<Rightarrow>
          if idx < 0 then (False, st)
          else
            (case get_dive (dive_table st) idx of
               None \<Rightarrow> (True, st)
             | Some d \<Rightarrow>
                 if data \<noteq> None \<and> Some (nat idx) \<noteq> data then (False, st)
                 else (Some (nat idx) = data, store_set m it (fill_columns d) st)))"

fun foreach_other :: "model_id \<Rightarrow> iter list \<Rightarrow> nat option \<Rightarrow> state \<Rightarrow> state" where
  "foreach_other m [] data st = st"
| "foreach_other m (it # its) data st =
     (case set_one_dive_other m it data st of
        (True, st') \<Rightarrow> st'
      | (False, st') \<Rightarrow> foreach_other m its data st')"

definition fill_one_dive :: "nat \<Rightarrow> model_id \<Rightarrow> iter \<Rightarrow> state \<Rightarrow> state" where
  "fill_one_dive p m it st =
     (let st1 = store_set m it (fill_columns (dive_table st ! p)) st;
          othermodel = (if m = TreeModel then ListModel else TreeModel)
      in if othermodel \<noteq> model st1
         then foreach_other othermodel (all_iters [] 0 (the_model st1 othermodel)) (Some p) st1
         else st1)"

definition set_one_dive :: "model_id \<Rightarrow> iter \<Rightarrow> nat option \<Rightarrow> state \<Rightarrow> bool \<times> state" where
  "set_one_dive m it data st =
     (case get_index (the_model st m) it of
        None \<Rightarrow> (False, st)
      | Some idx \<Rightarrow>
          if idx < 0 then (False, st)
          else
            (case get_dive (dive_table st) idx of
               None \<Rightarrow> (True, st)
             | Some d \<Rightarrow>
                 if data \<noteq> None \<and> Some (nat idx) \<noteq> data then (False, st)
                 else (Some (nat idx) = data, fill_one_dive (nat idx) m it st)))"

section \<open>The trip grouping of fill_dive_list\<close>

subsection \<open>The trip list\<close>

text \<open>
  Modelled from the spec: the macros \<open>UNGROUPED_DIVE\<close>, \<open>DIVE_IN_TRIP\<close>,
  \<open>DIVE_FITS_TRIP\<close>, \<open>DIVE_TRIP\<close>, \<open>PREV_TRIP\<close>, \<open>FIND_TRIP\<close> and the function
  \<open>insert_trip\<close> belong to dive.h, which is not among the sources.
  \<^item> The trip assignment modes of the spec are the \<open>tripflag\<close> values the source names:
    a dive is ungrouped (forced to the top level) with \<open>NO_TRIP\<close> and in a trip with
    \<open>IN_TRIP\<close>.
  \<^item> Whether a dive fits a trip is, as in the spec, a predicate \<open>fits\<close> over the dive's
    timestamp and the trip's current timestamp; it is a parameter of the pass.
  \<^item> The cursor \<open>trip\<close> points to a node of \<open>dive_trip_list\<close>; the list holds each trip
    once, so the cursor is modelled by the trip of its node and \<open>DIVE_TRIP\<close> is the
    identity. The source starts "on the last one" for the newest dive and the spec
    searches backward from the cursor: \<open>PREV_TRIP\<close> is the trip before the cursor's, and
    the last trip of the list when there is no cursor.
  \<^item> \<open>insert_trip\<close> gets the new trip and the list only. The spec keeps the Trip List
    ordered by timestamp, so the trip goes in front of the first trip whose \<open>when\<close> is
    not smaller than its own (which is 0, the trip being new).
  \<^item> \<open>FIND_TRIP\<close> makes the inserted trip the cursor.
\<close>

definition UNGROUPED_DIVE :: "dive \<Rightarrow> bool" where
  "UNGROUPED_DIVE d = (tripflag d = NO_TRIP)"

definition DIVE_IN_TRIP :: "dive \<Rightarrow> bool" where
  "DIVE_IN_TRIP d = (tripflag d = IN_TRIP)"

definition g_list_last :: "nat list \<Rightarrow> nat option" where
  "g_list_last xs = (if xs = [] then None else Some (last xs))"

fun g_list_previous :: "nat \<Rightarrow> nat list \<Rightarrow> nat option" where
  "g_list_previous t [] = None"
| "g_list_previous t [x] = None"
| "g_list_previous t (x # y # xs) =
     (if x = t then None else if y = t then Some x else g_list_previous t (y # xs))"

definition PREV_TRIP :: "nat option \<Rightarrow> nat list \<Rightarrow> nat option" where
  "PREV_TRIP entry xs = (case entry of None \<Rightarrow> g_list_last xs | Some t \<Rightarrow> g_list_previous t xs)"

fun insert_trip :: "(nat \<Rightarrow> dive) \<Rightarrow> nat \<Rightarrow> nat list \<Rightarrow> nat list" where
  "insert_trip heap t [] = [t]"
| "insert_trip heap t (x # xs) =
     (if dive_when (heap t) \<le> dive_when (heap x) then t # x # xs
      else x # insert_trip heap t xs)"

definition FIND_TRIP :: "nat \<Rightarrow> nat list \<Rightarrow> nat option" where
  "FIND_TRIP t xs = (if t \<in> set xs then Some t else None)"

subsection \<open>The pass over the dives\<close>

text \<open>
  The local variables of \<open>fill_dive_list\<close> that live across the iterations.
  \<open>parent_ptr\<close> is NULL or the address of \<open>parent_iter\<close>, the iter of the summary row
  appended last: it is modelled by that iter.
\<close>

record fill_vars =
  parent_ptr :: "iter option"
  last_trip :: "nat option"
  trip :: "nat option"
  dive_trip :: "nat option"

text \<open>
  \<open>gtk_tree_store_append\<close>: a new last row at top level (parent NULL, the path \<open>[]\<close>) or
  a new last child of the parent row.
\<close>

fun append_row :: "iter \<Rightarrow> row \<Rightarrow> row list \<Rightarrow> row list" where
  "append_row [] r rows = rows @ [r]"
| "append_row (k # p) r rows =
     (if k < length rows
      then rows[k := Row (row_columns (rows ! k)) (append_row p r (row_children (rows ! k)))]
      else rows)"

definition blank_columns :: columns where
  "blank_columns = \<lparr>DIVE_INDEX = 0, DIVE_NR = 0, DIVE_DATE = 0, DIVE_RATING = 0, DIVE_DEPTH = 0,
     DIVE_DURATION = 0, DIVE_TEMPERATURE = 0, DIVE_TOTALWEIGHT = 0, DIVE_SUIT = None,
     DIVE_CYLINDER = None, DIVE_SAC = 0, DIVE_OTU = 0, DIVE_LOCATION = None\<rparr>"

text \<open>
  "make sure we display the first date of the trip in previous summary": at the head of
  the loop body and once more after the loop.
\<close>

definition update_summary :: "fill_vars \<Rightarrow> state \<Rightarrow> state" where
  "update_summary v st =
     (case dive_trip v of
        None \<Rightarrow> st
      | Some t \<Rightarrow>
          (case parent_ptr v of
             None \<Rightarrow> st
           | Some p \<Rightarrow>
               st\<lparr>treemodel :=
                    update_row (\<lambda>c. c\<lparr>DIVE_NR := number (trips st t),
                                       DIVE_DATE := dive_when (trips st t),
                                       DIVE_LOCATION := location (trips st t)\<rparr>)
                      p (treemodel st)\<rparr>))"

text \<open>
  "allocate new trip": \<open>alloc_dive\<close>, \<open>insert_trip\<close> and \<open>FIND_TRIP\<close>, the three
  statements both branches that create a trip consist of.
\<close>

definition new_trip :: "fill_vars \<Rightarrow> state \<Rightarrow> fill_vars \<times> state" where
  "new_trip v st =
     (let t = trips_allocated st;
          st1 = st\<lparr>trips := (trips st)(t := alloc_dive), trips_allocated := t + 1\<rparr>;
          st2 = st1\<lparr>dive_trip_list := insert_trip (trips st1) t (dive_trip_list st1)\<rparr>
      in (v\<lparr>dive_trip := Some t, trip := FIND_TRIP t (dive_trip_list st2)\<rparr>, st2))"

definition fits_cursor :: "(int \<Rightarrow> int \<Rightarrow> bool) \<Rightarrow> dive \<Rightarrow> nat option \<Rightarrow> state \<Rightarrow> bool" where
  "fits_cursor fits d entry st =
     (case entry of None \<Rightarrow> False | Some t \<Rightarrow> fits (dive_when d) (dive_when (trips st t)))"

text \<open>
  The three branches on \<open>tripflag\<close> of the loop body, for the dive \<open>d\<close>. In the third
  the inner variable \<open>last_trip\<close> (a list node, hiding the outer \<open>last_trip\<close>) is the
  cursor before \<open>PREV_TRIP\<close>.
\<close>

definition choose_trip :: "(int \<Rightarrow> int \<Rightarrow> bool) \<Rightarrow> dive \<Rightarrow> fill_vars \<Rightarrow> state \<Rightarrow> fill_vars \<times> state" where
  "choose_trip fits d v st =
     (if UNGROUPED_DIVE d then (v\<lparr>parent_ptr := None, dive_trip := None\<rparr>, st)
      else if autogroup st \<and> \<not> DIVE_IN_TRIP d then
        (if dive_trip v = None \<or> \<not> fits_cursor fits d (dive_trip v) st
         then new_trip v st else (v, st))
      else
        (if \<not> fits_cursor fits d (trip v) st then
           (let prev = PREV_TRIP (trip v) (dive_trip_list st) in
            if \<not> fits_cursor fits d prev st then
              (if autogroup st then new_trip (v\<lparr>trip := prev\<rparr>) st
               else (v\<lparr>trip := trip v\<rparr>, st))
            else
              (case prev of
                 None \<Rightarrow> (v, st)
               | Some t \<Rightarrow>
                   (v\<lparr>trip := prev, dive_trip := Some t\<rparr>,
                    st\<lparr>trips := (trips st)(t := (trips st t)\<lparr>number := 0\<rparr>)\<rparr>)))
         else (v, st)))"

text \<open>
  "update dive_trip to include this dive": the dive \<open>i\<close> joins the trip \<open>dive_trip\<close>,
  and a summary row is appended when the trip differs from \<open>last_trip\<close>.
\<close>

definition attach_dive :: "nat \<Rightarrow> fill_vars \<Rightarrow> state \<Rightarrow> fill_vars \<times> state" where
  "attach_dive i v st =
     (case dive_trip v of
        None \<Rightarrow> (v, st)
      | Some t \<Rightarrow>
          let d = dive_table st ! i;
              st1 = st\<lparr>dive_table := (dive_table st)[i := d\<lparr>tripflag := IN_TRIP\<rparr>]\<rparr>;
              tr = trips st1 t;
              tr1 = tr\<lparr>number := number tr + 1, dive_when := dive_when d\<rparr>;
              tr2 = (if location tr1 = None \<and> location d \<noteq> None
                     then tr1\<lparr>location := location d\<rparr> else tr1);
              st2 = st1\<lparr>trips := (trips st1)(t := tr2)\<rparr>
          in if dive_trip v \<noteq> last_trip v then
               (v\<lparr>last_trip := dive_trip v, parent_ptr := Some [length (treemodel st2)]\<rparr>,
                st2\<lparr>treemodel :=
                      append_row []
                        (Row (blank_columns\<lparr>DIVE_INDEX := - 1, DIVE_NR := number tr2,
                                DIVE_DATE := dive_when tr2, DIVE_LOCATION := location tr2,
                                DIVE_DURATION := 0\<rparr>) [])
                        (treemodel st2)\<rparr>)
             else (v, st2))"

text \<open>
  "store dive": the row of the dive \<open>i\<close> in the tree store, under the summary row when
  \<open>parent_ptr\<close> is set, and in the list store. \<open>update_cylinder_related_info\<close> before it
  writes the fields \<open>sac\<close> and \<open>otu\<close> of the dive only; the grouping reads neither, and
  the pass is modelled without that call.
\<close>

definition store_dive :: "nat \<Rightarrow> fill_vars \<Rightarrow> state \<Rightarrow> state" where
  "store_dive i v st =
     (let d = dive_table st ! i;
          c = blank_columns\<lparr>DIVE_INDEX := int i, DIVE_NR := number d, DIVE_DATE := dive_when d,
                DIVE_DEPTH := maxdepth_mm d, DIVE_DURATION := duration_seconds d,
                DIVE_LOCATION := location d, DIVE_RATING := rating d,
                DIVE_TEMPERATURE := watertemp_mkelvin d, DIVE_SAC := 0\<rparr>
      in st\<lparr>treemodel :=
              append_row (case parent_ptr v of None \<Rightarrow> [] | Some p \<Rightarrow> p) (Row c []) (treemodel st),
            listmodel :=
              append_row [] (Row (c\<lparr>DIVE_TOTALWEIGHT := 0, DIVE_SUIT := suit d\<rparr>) []) (listmodel st)\<rparr>)"

text \<open>
  The body of \<open>while (--i >= 0)\<close> for the dive \<open>i\<close>; \<open>get_dive(i)\<close> is a dive of the
  table there, since \<open>i < dive_table.nr\<close>.
\<close>

definition fill_body :: "(int \<Rightarrow> int \<Rightarrow> bool) \<Rightarrow> nat \<Rightarrow> fill_vars \<times> state \<Rightarrow> fill_vars \<times> state" where
  "fill_body fits i vs =
     (case vs of (v, st) \<Rightarrow>
        let st1 = update_summary v st;
            v1 = (case trip v of None \<Rightarrow> v | Some t \<Rightarrow> v\<lparr>dive_trip := Some t\<rparr>)
        in case choose_trip fits (dive_table st1 ! i) v1 st1 of
             (v2, st2) \<Rightarrow>
               (case attach_dive i v2 st2 of
                  (v3, st3) \<Rightarrow> (v3, store_dive i v3 st3)))"

text \<open>
  The loop, run from \<open>hi\<close> down to \<open>lo\<close>: \<open>fill_range fits lo hi\<close> does the iterations
  for the dives \<open>hi - 1\<close>, ..., \<open>lo\<close>. The loop of the source is \<open>fill_range fits 0 nr\<close>;
  \<open>fill_range fits k nr\<close> is its state when the iteration for the dive \<open>k\<close> is done.
\<close>

fun fill_range :: "(int \<Rightarrow> int \<Rightarrow> bool) \<Rightarrow> nat \<Rightarrow> nat \<Rightarrow> fill_vars \<times> state \<Rightarrow> fill_vars \<times> state" where
  "fill_range fits lo 0 vs = vs"
| "fill_range fits lo (Suc i) vs =
     (if lo \<le> i then fill_range fits lo i (fill_body fits i vs) else vs)"

definition fill_start :: "state \<Rightarrow> fill_vars \<times> state" where
  "fill_start st =
     (\<lparr>parent_ptr = None, last_trip = None, trip = g_list_last (dive_trip_list st),
       dive_trip = None\<rparr>, st)"

text \<open>
  \<open>fill_dive_list\<close> up to the last update of the summary row. What follows in the
  source, \<open>update_dive_list_units\<close> and the selection of the first leaf, changes the
  column titles, the columns \<open>fill_one_dive\<close> sets and the selection, and nothing of the
  trips.
\<close>

definition fill_dive_list :: "(int \<Rightarrow> int \<Rightarrow> bool) \<Rightarrow> state \<Rightarrow> state" where
  "fill_dive_list fits st =
     (case fill_range fits 0 (length (dive_table st)) (fill_start st) of
        (v, st') \<Rightarrow> update_summary v st')"

definition dive_list_update_dives :: "(int \<Rightarrow> int \<Rightarrow> bool) \<Rightarrow> state \<Rightarrow> state" where
  "dive_list_update_dives fits st = fill_dive_list fits (st\<lparr>treemodel := [], listmodel := []\<rparr>)"

subsection \<open>Notions used to state the properties of the selection\<close>

text \<open>
  The members of a group row are the dives its child rows name. They are valid when each
  names a dive of the table, and \<open>member_selected\<close> is the \<open>selected\<close> flag of the dive
  a child row names.
\<close>

definition members_valid :: "model_id \<Rightarrow> iter \<Rightarrow> state \<Rightarrow> bool" where
  "members_valid m it st =
     list_all (\<lambda>(child, idx). get_dive (dive_table st) idx \<noteq> None) (iter_children (the_model st m) it)"

definition member_selected :: "state \<Rightarrow> int \<Rightarrow> bool" where
  "member_selected st idx = (case get_dive (dive_table st) idx of None \<Rightarrow> False | Some d \<Rightarrow> selected d)"

subsection \<open>Concrete models\<close>

text \<open>
  A tree model with one trip of the dives 2 and 1 and the dive 0 at top level, over a
  table of three dives; and the same models after the table has shrunk to one dive.
\<close>

definition index_row :: "int \<Rightarrow> row list \<Rightarrow> row" where
  "index_row idx kids = Row (blank_columns\<lparr>DIVE_INDEX := idx\<rparr>) kids"

definition trip_state :: state where
  "trip_state = \<lparr>dive_table = [alloc_dive, alloc_dive, alloc_dive], amount_selected = 0,
     selected_dive = 0,
     treemodel = [index_row (- 1) [index_row 2 [], index_row 1 []], index_row 0 []],
     listmodel = [index_row 2 [], index_row 1 [], index_row 0 []],
     model = TreeModel, gtk_selection = {}, autogroup = False, dive_trip_list = [],
     trips = (\<lambda>t. alloc_dive), trips_allocated = 0\<rparr>"

definition stale_state :: state where
  "stale_state = trip_state\<lparr>dive_table := [alloc_dive]\<rparr>"

subsection \<open>Notions used to state the properties of the trip grouping\<close>

text \<open>
  The trip a dive is attached to in the pass: the value of \<open>dive_trip\<close> when the
  iteration for the dive \<open>k\<close> is done (NULL for a dive left at top level). The members of
  a trip are the dives attached to it, by increasing index.
\<close>

definition trip_of_dive :: "(int \<Rightarrow> int \<Rightarrow> bool) \<Rightarrow> state \<Rightarrow> nat \<Rightarrow> nat option" where
  "trip_of_dive fits st k =
     dive_trip (fst (fill_range fits k (length (dive_table st)) (fill_start st)))"

definition trip_members :: "(int \<Rightarrow> int \<Rightarrow> bool) \<Rightarrow> state \<Rightarrow> nat \<Rightarrow> nat list" where
  "trip_members fits st t =
     filter (\<lambda>k. trip_of_dive fits st k = Some t) [0..<length (dive_table st)]"

text \<open>
  A window for \<open>DIVE_FITS_TRIP\<close>: a dive fits a trip when it is not more than
  \<open>window\<close> before the trip's date. The scenario of the spec: three dives at the times
  50, 95 and 100 (the table holds the oldest dive first, the pass starts at its end),
  none assigned to a trip, \<open>autogroup\<close> on, no trips yet, and a window of 24.
\<close>

definition fits_within :: "int \<Rightarrow> int \<Rightarrow> int \<Rightarrow> bool" where
  "fits_within window d t = (t - window \<le> d)"

definition dive_at :: "int \<Rightarrow> dive" where
  "dive_at t = alloc_dive\<lparr>dive_when := t\<rparr>"

definition three_dives :: state where
  "three_dives = \<lparr>dive_table = [dive_at 50, dive_at 95, dive_at 100], amount_selected = 0,
     selected_dive = 0, treemodel = [], listmodel = [], model = TreeModel, gtk_selection = {},
     autogroup = True, dive_trip_list = [], trips = (\<lambda>t. alloc_dive), trips_allocated = 0\<rparr>"

text \<open>The same with the dive at the time 100 alone.\<close>

definition one_dive :: state where
  "one_dive = three_dives\<lparr>dive_table := [dive_at 100]\<rparr>"

text \<open>
  The summary of a row of the tree model: its \<open>DIVE_INDEX\<close>, \<open>DIVE_NR\<close> and
  \<open>DIVE_DATE\<close> and the \<open>DIVE_INDEX\<close> of each child.
\<close>

definition summary_of :: "row \<Rightarrow> int \<times> int \<times> int \<times> int list" where
  "summary_of r =
     (DIVE_INDEX (row_columns r), DIVE_NR (row_columns r), DIVE_DATE (row_columns r),
      map (\<lambda>c. DIVE_INDEX (row_columns c)) (row_children r))"

section \<open>Properties of the statistics\<close>

subsection \<open>Evaluation of the concrete dives\<close>

lemmas example_defs = filled_cylinder_def air_dive_def nitrox_dive_def trimix_dive_def
  alloc_dive_def empty_cylinder_def cylinder_none_def AIR_PERMILLE_def

lemma cylinder_none_empty [simp]: "cylinder_none empty_cylinder"
  by (simp add: cylinder_none_def empty_cylinder_def)

lemma list_all_replicate: "P x \<Longrightarrow> list_all P (replicate n x)"
  by (induction n) simp_all

subsection \<open>get_dive_gas\<close>

lemma gas_loop_all_none:
  "list_all cylinder_none cyls \<Longrightarrow> gas_loop cyls acc = acc"
  by (induction cyls arbitrary: acc) (auto simp: split_paired_all)

lemma gas_loop_air_fix:
  "list_all (\<lambda>c. he_permille c = 0) cyls \<Longrightarrow>
   list_all (\<lambda>c. cylinder_none c \<or> o2_permille c = 209 \<or> o2_permille c = 0) cyls \<Longrightarrow>
   gas_loop cyls (209, 0, 209) = (209, 0, 209)"
  by (induction cyls) (auto simp: AIR_PERMILLE_def)

lemma gas_loop_air:
  "list_all (\<lambda>c. he_permille c = 0) cyls \<Longrightarrow>
   list_all (\<lambda>c. cylinder_none c \<or> o2_permille c = 209 \<or> o2_permille c = 0) cyls \<Longrightarrow>
   gas_loop cyls (-1, -1, 1000) =
     (if list_all cylinder_none cyls then (-1, -1, 1000) else (209, 0, 209))"
  by (induction cyls) (auto simp: AIR_PERMILLE_def gas_loop_air_fix)

lemma gas_loop_bounds:
  "list_all (\<lambda>c. 0 \<le> o2_permille c \<and> o2_permille c \<le> 1000 \<and>
       0 \<le> he_permille c \<and> he_permille c \<le> 1000) cyls \<Longrightarrow>
   -1 \<le> maxo2 \<and> maxo2 \<le> 1000 \<and> -1 \<le> maxhe \<and> maxhe \<le> 1000 \<and> 0 \<le> mino2 \<and> mino2 \<le> 1000 \<Longrightarrow>
   gas_loop cyls (maxo2, maxhe, mino2) = (a, b, c) \<Longrightarrow>
   -1 \<le> a \<and> a \<le> 1000 \<and> -1 \<le> b \<and> b \<le> 1000 \<and> 0 \<le> c \<and> c \<le> 1000"
proof (induction cyls arbitrary: maxo2 maxhe mino2)
  case Nil
  then show ?case by simp
next
  case (Cons cyl cyls)
  from Cons.prems(1) have tl: "list_all (\<lambda>c. 0 \<le> o2_permille c \<and> o2_permille c \<le> 1000 \<and>
       0 \<le> he_permille c \<and> he_permille c \<le> 1000) cyls"
    and hd: "0 \<le> o2_permille cyl" "o2_permille cyl \<le> 1000" "0 \<le> he_permille cyl" "he_permille cyl \<le> 1000"
    by simp_all
  define o2 where "o2 = (if o2_permille cyl = 0 then AIR_PERMILLE else o2_permille cyl)"
  have o2: "0 \<le> o2" "o2 \<le> 1000" using hd by (auto simp: o2_def AIR_PERMILLE_def)
  define m where "m = (if o2 < mino2 then o2 else mino2)"
  have m: "0 \<le> m" "m \<le> 1000" using o2 Cons.prems(2) by (auto simp: m_def)
  have step: "gas_loop (cyl # cyls) (maxo2, maxhe, mino2) =
      (if cylinder_none cyl then gas_loop cyls (maxo2, maxhe, mino2)
       else if he_permille cyl > maxhe then gas_loop cyls (o2, he_permille cyl, m)
       else if he_permille cyl < maxhe then gas_loop cyls (maxo2, maxhe, m)
       else if o2 \<le> maxo2 then gas_loop cyls (maxo2, maxhe, m)
       else gas_loop cyls (o2, he_permille cyl, m))"
    by (simp add: Let_def o2_def m_def)
  consider (none) "gas_loop (cyl # cyls) (maxo2, maxhe, mino2) = gas_loop cyls (maxo2, maxhe, mino2)"
    | (keep) "gas_loop (cyl # cyls) (maxo2, maxhe, mino2) = gas_loop cyls (maxo2, maxhe, m)"
    | (new) "gas_loop (cyl # cyls) (maxo2, maxhe, mino2) = gas_loop cyls (o2, he_permille cyl, m)"
    unfolding step
    by (cases "cylinder_none cyl"; cases "maxhe < he_permille cyl";
        cases "he_permille cyl < maxhe"; cases "o2 \<le> maxo2"; simp)
  then show ?case
  proof cases
    case none
    with Cons.prems(3) have "gas_loop cyls (maxo2, maxhe, mino2) = (a, b, c)" by simp
    from Cons.IH [OF tl Cons.prems(2) this] show ?thesis .
  next
    case keep
    with Cons.prems(3) have "gas_loop cyls (maxo2, maxhe, m) = (a, b, c)" by simp
    from Cons.IH [OF tl _ this] Cons.prems(2) m show ?thesis by simp
  next
    case new
    with Cons.prems(3) have "gas_loop cyls (o2, he_permille cyl, m) = (a, b, c)" by simp
    from Cons.IH [OF tl _ this] o2 hd m show ?thesis by simp
  qed
qed

lemma get_dive_gas_bounds:
  assumes "permille_ok d" "get_dive_gas d = (o2, he, o2low)"
  shows "-1 \<le> o2 \<and> o2 \<le> 1000 \<and> -1 \<le> he \<and> he \<le> 1000 \<and> 0 \<le> o2low \<and> o2low \<le> 1000"
proof -
  obtain a b c where g: "gas_loop (cylinder d) (-1, -1, 1000) = (a, b, c)"
    by (cases "gas_loop (cylinder d) (-1, -1, 1000)") auto
  from assms(1) have "-1 \<le> a \<and> a \<le> 1000 \<and> -1 \<le> b \<and> b \<le> 1000 \<and> 0 \<le> c \<and> c \<le> 1000"
    unfolding permille_ok_def by (rule gas_loop_bounds [OF _ _ g]) simp
  with assms(2) g show ?thesis
    by (auto simp: get_dive_gas_def split: if_splits)
qed

lemma gas_air: "get_dive_gas air_dive = (0, 0, 0)"
  by (simp add: get_dive_gas_def example_defs)

lemma gas_nitrox: "get_dive_gas nitrox_dive = (320, 0, 320)"
  by (simp add: get_dive_gas_def example_defs)

lemma gas_trimix: "get_dive_gas trimix_dive = (180, 450, 180)"
  by (simp add: get_dive_gas_def example_defs)

text \<open>
  Claim C10. A dive in which every cylinder slot is empty (\<open>cylinder_none\<close>) gets the
  initial values of the scan, \<open>o2 = -1\<close>, \<open>he = -1\<close>, \<open>o2low = 1000\<close>, and not the
  triple \<open>(0, 0, 0)\<close> of plain air: the normalisation to air needs a scanned cylinder.
\<close>

theorem get_dive_gas_all_empty:
  assumes "list_all cylinder_none (cylinder d)"
  shows "get_dive_gas d = (- 1, - 1, 1000) \<and> get_dive_gas d \<noteq> (0, 0, 0)"
  using assms by (simp add: get_dive_gas_def gas_loop_all_none AIR_PERMILLE_def)

theorem get_dive_gas_all_empty_witness:
  "list_all cylinder_none (cylinder alloc_dive) \<and> get_dive_gas alloc_dive = (- 1, - 1, 1000)"
proof -
  have h: "list_all cylinder_none (cylinder alloc_dive)"
    by (simp add: alloc_dive_def list_all_replicate)
  from get_dive_gas_all_empty [OF h] h show ?thesis by simp
qed

text \<open>
  Claim C5. As stated (helium 0 in every cylinder, oxygen 209 permille or unset in every
  non-empty cylinder) the claim fails on a dive without any non-empty cylinder, where the
  result is the initial triple of the scan.
\<close>

theorem get_dive_gas_air_counterexample:
  "list_all (\<lambda>c. he_permille c = 0) (cylinder alloc_dive) \<and>
   list_all (\<lambda>c. cylinder_none c \<or> o2_permille c = 209 \<or> o2_permille c = 0) (cylinder alloc_dive) \<and>
   get_dive_gas alloc_dive \<noteq> (0, 0, 0)"
proof -
  have h: "list_all cylinder_none (cylinder alloc_dive)"
    by (simp add: alloc_dive_def list_all_replicate)
  have "get_dive_gas alloc_dive = (- 1, - 1, 1000)"
    using h by (simp add: get_dive_gas_def gas_loop_all_none AIR_PERMILLE_def)
  moreover have "list_all (\<lambda>c. he_permille c = 0) (cylinder alloc_dive)"
    by (simp add: alloc_dive_def list_all_replicate empty_cylinder_def)
  moreover have "list_all (\<lambda>c. cylinder_none c \<or> o2_permille c = 209 \<or> o2_permille c = 0) (cylinder alloc_dive)"
    by (simp add: alloc_dive_def list_all_replicate)
  ultimately show ?thesis by simp
qed

text \<open>
  Claim C5, amended. If every cylinder has helium 0, every non-empty cylinder has oxygen
  209 permille or oxygen 0 (which defaults to 209), and at least one cylinder is not
  empty, then \<open>get_dive_gas\<close> returns \<open>(0, 0, 0)\<close>.
\<close>

theorem get_dive_gas_air:
  assumes "list_all (\<lambda>c. he_permille c = 0) (cylinder d)"
    and "list_all (\<lambda>c. cylinder_none c \<or> o2_permille c = 209 \<or> o2_permille c = 0) (cylinder d)"
    and "\<not> list_all cylinder_none (cylinder d)"
  shows "get_dive_gas d = (0, 0, 0)"
  using assms by (simp add: get_dive_gas_def gas_loop_air AIR_PERMILLE_def)

theorem get_dive_gas_air_witness:
  "list_all (\<lambda>c. he_permille c = 0) (cylinder air_dive) \<and>
   list_all (\<lambda>c. cylinder_none c \<or> o2_permille c = 209 \<or> o2_permille c = 0) (cylinder air_dive) \<and>
   \<not> list_all cylinder_none (cylinder air_dive) \<and>
   get_dive_gas air_dive = (0, 0, 0)"
proof -
  have h1: "list_all (\<lambda>c. he_permille c = 0) (cylinder air_dive)"
    by (simp add: example_defs)
  have h2: "list_all (\<lambda>c. cylinder_none c \<or> o2_permille c = 209 \<or> o2_permille c = 0) (cylinder air_dive)"
    by (simp add: example_defs)
  have h3: "\<not> list_all cylinder_none (cylinder air_dive)"
    by (simp add: example_defs)
  from get_dive_gas_air [OF h1 h2 h3] h1 h2 h3 show ?thesis by simp
qed

subsection \<open>nitrox_sort_func\<close>

lemma int_sub_exact: "- (2 ^ 31) \<le> a - b \<Longrightarrow> a - b < 2 ^ 31 \<Longrightarrow> int_sub a b = a - b"
proof -
  assume a: "- (2 ^ 31) \<le> a - b" "a - b < 2 ^ 31"
  have "word_of_int a - word_of_int b = (word_of_int (a - b) :: 32 word)" by simp
  then have "int_sub a b = signed_take_bit 31 (a - b)"
    unfolding int_sub_def by (simp only: sint_sbintrunc') simp
  with a show ?thesis by (simp add: signed_take_bit_int_eq_self)
qed

lemma nitrox_sort_func_value:
  assumes "get_dive tbl ia = Some a" "get_dive tbl ib = Some b" "permille_ok a" "permille_ok b"
  shows "\<exists>r. nitrox_sort_func tbl ia ib = Inr r \<and>
    (r < 0 \<longleftrightarrow> gas_lex_less (gas_key a) (gas_key b)) \<and>
    (r = 0 \<longleftrightarrow> gas_key a = gas_key b) \<and>
    (0 < r \<longleftrightarrow> gas_lex_less (gas_key b) (gas_key a))"
proof -
  obtain ao ah al where ga: "get_dive_gas a = (ao, ah, al)" by (cases "get_dive_gas a") auto
  obtain bo bh bl where gb: "get_dive_gas b = (bo, bh, bl)" by (cases "get_dive_gas b") auto
  note ba = get_dive_gas_bounds [OF assms(3) ga] and bb = get_dive_gas_bounds [OF assms(4) gb]
  have s1: "int_sub ah bh = ah - bh" using ba bb by (intro int_sub_exact) auto
  have s2: "int_sub ao bo = ao - bo" using ba bb by (intro int_sub_exact) auto
  have s3: "int_sub al bl = al - bl" using ba bb by (intro int_sub_exact) auto
  show ?thesis
    using assms(1,2) ga gb s1 s2 s3
    by (auto simp: nitrox_sort_func_def gas_key_def gas_lex_less_def)
qed

text \<open>
  Claim C4. For dives of the table whose gas mixes are fractions (permille values in
  \<open>0 .. 1000\<close>, so that no subtraction overflows), the sign of \<open>nitrox_sort_func\<close> is the
  lexicographic comparison of the keys (helium, maximal oxygen, minimal oxygen) of
  \<open>get_dive_gas\<close>: negative exactly when the first key is smaller, zero exactly when the
  keys are equal, positive exactly when it is larger. The comparison is antisymmetric and
  transitive, hence a total preorder of the dives and a total order of their keys.
\<close>

theorem nitrox_sort_func_lexicographic:
  assumes "get_dive tbl ia = Some a" "get_dive tbl ib = Some b" "get_dive tbl ic = Some c"
    and "permille_ok a" "permille_ok b" "permille_ok c"
  shows "\<exists>rab rba rbc rac.
    nitrox_sort_func tbl ia ib = Inr rab \<and> nitrox_sort_func tbl ib ia = Inr rba \<and>
    nitrox_sort_func tbl ib ic = Inr rbc \<and> nitrox_sort_func tbl ia ic = Inr rac \<and>
    (rab < 0 \<longleftrightarrow> gas_lex_less (gas_key a) (gas_key b)) \<and>
    (rab = 0 \<longleftrightarrow> gas_key a = gas_key b) \<and>
    (0 < rab \<longleftrightarrow> gas_lex_less (gas_key b) (gas_key a)) \<and>
    (rab < 0 \<longleftrightarrow> 0 < rba) \<and>
    (rab \<le> 0 \<and> rbc \<le> 0 \<longrightarrow> rac \<le> 0)"
proof -
  from nitrox_sort_func_value [OF assms(1,2,4,5)] obtain rab where
    ab: "nitrox_sort_func tbl ia ib = Inr rab"
      "rab < 0 \<longleftrightarrow> gas_lex_less (gas_key a) (gas_key b)"
      "rab = 0 \<longleftrightarrow> gas_key a = gas_key b"
      "0 < rab \<longleftrightarrow> gas_lex_less (gas_key b) (gas_key a)" by blast
  from nitrox_sort_func_value [OF assms(2,1,5,4)] obtain rba where
    ba: "nitrox_sort_func tbl ib ia = Inr rba"
      "0 < rba \<longleftrightarrow> gas_lex_less (gas_key a) (gas_key b)" by blast
  from nitrox_sort_func_value [OF assms(2,3,5,6)] obtain rbc where
    bc: "nitrox_sort_func tbl ib ic = Inr rbc"
      "rbc < 0 \<longleftrightarrow> gas_lex_less (gas_key b) (gas_key c)"
      "rbc = 0 \<longleftrightarrow> gas_key b = gas_key c" by blast
  from nitrox_sort_func_value [OF assms(1,3,4,6)] obtain rac where
    ac: "nitrox_sort_func tbl ia ic = Inr rac"
      "rac < 0 \<longleftrightarrow> gas_lex_less (gas_key a) (gas_key c)"
      "rac = 0 \<longleftrightarrow> gas_key a = gas_key c" by blast
  have trans: "gas_lex_less x y \<Longrightarrow> gas_lex_less y z \<Longrightarrow> gas_lex_less x z" for x y z
    by (auto simp: gas_lex_less_def split: prod.splits)
  have "rab \<le> 0 \<and> rbc \<le> 0 \<longrightarrow> rac \<le> 0"
  proof
    assume h: "rab \<le> 0 \<and> rbc \<le> 0"
    then have "rab < 0 \<or> rab = 0" "rbc < 0 \<or> rbc = 0" by auto
    then have "gas_lex_less (gas_key a) (gas_key c) \<or> gas_key a = gas_key c"
      using ab(2,3) bc(2,3) trans by metis
    with ac(2,3) show "rac \<le> 0" by auto
  qed
  with ab ba bc(1) ac(1) show ?thesis by auto
qed

theorem nitrox_sort_func_lexicographic_witness:
  "get_dive [air_dive, nitrox_dive, trimix_dive] 0 = Some air_dive \<and>
   get_dive [air_dive, nitrox_dive, trimix_dive] 1 = Some nitrox_dive \<and>
   get_dive [air_dive, nitrox_dive, trimix_dive] 2 = Some trimix_dive \<and>
   permille_ok air_dive \<and> permille_ok nitrox_dive \<and> permille_ok trimix_dive \<and>
   nitrox_sort_func [air_dive, nitrox_dive, trimix_dive] 0 1 = Inr (- 320) \<and>
   nitrox_sort_func [air_dive, nitrox_dive, trimix_dive] 1 2 = Inr (- 450) \<and>
   gas_lex_less (gas_key air_dive) (gas_key nitrox_dive) \<and>
   (\<exists>r. nitrox_sort_func [air_dive, nitrox_dive, trimix_dive] 0 2 = Inr r \<and> r \<le> 0)"
proof -
  let ?t = "[air_dive, nitrox_dive, trimix_dive]"
  have g: "get_dive ?t 0 = Some air_dive" "get_dive ?t 1 = Some nitrox_dive"
    "get_dive ?t 2 = Some trimix_dive"
    by (simp_all add: get_dive_def)
  have p: "permille_ok air_dive" "permille_ok nitrox_dive" "permille_ok trimix_dive"
    by (simp_all add: permille_ok_def example_defs)
  have v1: "nitrox_sort_func ?t 0 1 = Inr (- 320)"
    by (simp add: nitrox_sort_func_def g gas_air gas_nitrox int_sub_exact)
  have v2: "nitrox_sort_func ?t 1 2 = Inr (- 450)"
    by (simp add: nitrox_sort_func_def g gas_trimix gas_nitrox int_sub_exact)
  from nitrox_sort_func_lexicographic [OF g p] v1 v2 g p show ?thesis by auto
qed

subsection \<open>calculate_airuse and calculate_sac\<close>

lemma airuse_loop_sum:
  "airuse_loop cyls acc = acc + (\<Sum>cyl\<leftarrow>cyls.
       if size_mliter cyl = 0 then 0
       else (to_ATM (if start_mbar cyl \<noteq> 0 then start_mbar cyl else sample_start_mbar cyl) -
             to_ATM (if end_mbar cyl \<noteq> 0 then end_mbar cyl else sample_end_mbar cyl)) / 1000 *
            real_of_int (size_mliter cyl))"
  by (induction cyls arbitrary: acc) (auto simp: Let_def)

text \<open>
  Claim C8. \<open>calculate_airuse\<close> is the sum, over the cylinders of non-zero size, of the
  start pressure minus the end pressure in atm, times the size in litres (the size in ml
  over 1000), where a recorded \<open>start\<close> or \<open>end\<close> pressure is taken when it is set and
  the sampled one otherwise. A cylinder of size 0 contributes nothing, whatever its
  pressures: the air use is the same with and without it.
\<close>

theorem calculate_airuse_sum:
  "calculate_airuse d =
     (\<Sum>cyl\<leftarrow>filter (\<lambda>cyl. size_mliter cyl \<noteq> 0) (cylinder d).
        (to_ATM (if start_mbar cyl \<noteq> 0 then start_mbar cyl else sample_start_mbar cyl) -
         to_ATM (if end_mbar cyl \<noteq> 0 then end_mbar cyl else sample_end_mbar cyl)) *
        (real_of_int (size_mliter cyl) / 1000)) \<and>
   (size_mliter c = 0 \<longrightarrow>
      calculate_airuse (d\<lparr>cylinder := xs @ c # ys\<rparr>) = calculate_airuse (d\<lparr>cylinder := xs @ ys\<rparr>))"
proof -
  have *: "airuse_loop cyls 0 = (\<Sum>cyl\<leftarrow>filter (\<lambda>cyl. size_mliter cyl \<noteq> 0) cyls.
        (to_ATM (if start_mbar cyl \<noteq> 0 then start_mbar cyl else sample_start_mbar cyl) -
         to_ATM (if end_mbar cyl \<noteq> 0 then end_mbar cyl else sample_end_mbar cyl)) *
        (real_of_int (size_mliter cyl) / 1000))" for cyls
    unfolding airuse_loop_sum by (induction cyls) simp_all
  show ?thesis
    by (simp add: calculate_airuse_def *)
qed

theorem calculate_airuse_sum_witness:
  "size_mliter empty_cylinder = 0 \<and>
   calculate_airuse (air_dive\<lparr>cylinder := [filled_cylinder 209 0 12000 200000 50000] @ empty_cylinder # []\<rparr>) =
   calculate_airuse (air_dive\<lparr>cylinder := [filled_cylinder 209 0 12000 200000 50000] @ []\<rparr>)"
proof -
  have h: "size_mliter empty_cylinder = 0" by (simp add: empty_cylinder_def)
  from calculate_airuse_sum [of air_dive empty_cylinder "[filled_cylinder 209 0 12000 200000 50000]" "[]"] h
  show ?thesis by simp
qed

text \<open>
  Claim C6. \<open>calculate_sac\<close> returns 0, and no error, when the air use is 0 or the
  duration of the dive is 0 seconds.
\<close>

theorem calculate_sac_degenerate:
  "calculate_airuse d = 0 \<or> duration_seconds d = 0 \<Longrightarrow> calculate_sac d = Inr 0"
  by (auto simp: calculate_sac_def Let_def)

theorem calculate_sac_degenerate_witness:
  "calculate_airuse alloc_dive = 0 \<and> calculate_sac alloc_dive = Inr 0 \<and>
   duration_seconds nitrox_dive = 0 \<and> calculate_airuse nitrox_dive \<noteq> 0 \<and>
   calculate_sac nitrox_dive = Inr 0"
proof -
  have a: "airuse_loop (replicate n empty_cylinder) acc = acc" for n acc
    by (induction n) (simp_all add: empty_cylinder_def)
  have h1: "calculate_airuse alloc_dive = 0"
    by (simp add: calculate_airuse_def alloc_dive_def a)
  have h2: "duration_seconds nitrox_dive = 0" by (simp add: example_defs)
  have h3: "calculate_airuse nitrox_dive \<noteq> 0"
    by (simp add: calculate_airuse_def example_defs to_ATM_def)
  from calculate_sac_degenerate [of alloc_dive] calculate_sac_degenerate [of nitrox_dive] h1 h2 h3
  show ?thesis by simp
qed

section \<open>The duration used by calculate_sac\<close>

lemma surface_runs_Nil_iff [simp]: "surface_runs xs = [] \<longleftrightarrow> xs = []"
  by (cases xs) simp_all

lemma concat_surface_runs: "concat (surface_runs xs) = xs"
  by (induction xs rule: surface_runs.induct) simp_all

lemma surface_runs_homogeneous:
  "run \<in> set (surface_runs xs) \<Longrightarrow>
   run \<noteq> [] \<and> list_all (\<lambda>s. near_surface s = near_surface (hd run)) run"
proof (induction xs rule: surface_runs.induct)
  case 1
  then show ?case by simp
next
  case (2 x xs)
  let ?P = "\<lambda>y. near_surface y = near_surface x"
  from "2.prems" consider (head) "run = x # takeWhile ?P xs"
    | (rest) "run \<in> set (surface_runs (dropWhile ?P xs))"
    by auto
  then show ?case
  proof cases
    case head
    have "list_all ?P (takeWhile ?P xs)"
      unfolding list_all_iff using set_takeWhileD by fastforce
    with head show ?thesis by simp
  next
    case rest
    then show ?thesis by (rule "2.IH")
  qed
qed

lemma excised_deep: "\<not> near_surface x \<Longrightarrow> excised_time (x # xs) = excised_time xs"
proof (cases xs)
  case Nil
  then show ?thesis by (simp add: excised_time_def)
next
  case (Cons y ys)
  assume nx: "\<not> near_surface x"
  show ?thesis
  proof (cases "near_surface y")
    case True
    with nx Cons show ?thesis by (simp add: excised_time_def)
  next
    case False
    with nx have eq: "(\<lambda>z. near_surface z = near_surface x) = (\<lambda>z. near_surface z = near_surface y)"
      by simp
    from False nx Cons show ?thesis
      unfolding excised_time_def by (simp add: eq)
  qed
qed

lemma excised_near:
  assumes "near_surface x"
  shows "excised_time (x # xs) =
    (if dropWhile near_surface xs = [] then 0
     else time_seconds (last (x # takeWhile near_surface xs)) - time_seconds x +
          excised_time (dropWhile near_surface xs))"
proof -
  from assms have eq: "(\<lambda>z. near_surface z = near_surface x) = near_surface" by auto
  show ?thesis unfolding excised_time_def using assms by (simp add: eq)
qed

lemma excised_all_near: "list_all near_surface xs \<Longrightarrow> excised_time xs = 0"
proof (cases xs)
  case Nil
  then show ?thesis by (simp add: excised_time_def)
next
  case (Cons y ys)
  assume "list_all near_surface xs"
  with Cons have y: "near_surface y" and ys: "\<forall>z\<in>set ys. near_surface z"
    by (simp_all add: list_all_iff)
  from ys have "dropWhile near_surface ys = []" by simp
  with y Cons show ?thesis by (simp add: excised_near)
qed

lemma scan_end_takeWhile:
  "j \<le> length ss \<Longrightarrow> scan_end ss j = j + length (takeWhile near_surface (drop j ss))"
proof (induction ss j rule: scan_end.induct)
  case (1 ss j)
  show ?case
  proof (cases "j < length ss")
    case False
    with 1(2) have "j = length ss" by simp
    then show ?thesis by (simp add: scan_end.simps [of ss "length ss"])
  next
    case True
    then have d: "drop j ss = ss ! j # drop (Suc j) ss" by (simp add: Cons_nth_drop_Suc)
    show ?thesis
    proof (cases "depth_mm (ss ! j) < 100")
      case near: True
      then have ns: "near_surface (ss ! j)" by (simp add: near_surface_def)
      from near True 1 have "scan_end ss (j + 1) = j + 1 + length (takeWhile near_surface (drop (j + 1) ss))"
        by simp
      with True near ns show ?thesis
        by (simp add: scan_end.simps [of ss j] d)
    next
      case False
      then have ns: "\<not> near_surface (ss ! j)" by (simp add: near_surface_def)
      from True False ns show ?thesis by (simp add: scan_end.simps [of ss j] d)
    qed
  qed
qed

lemma drop_scan_end:
  "j \<le> length ss \<Longrightarrow> drop (scan_end ss j) ss = dropWhile near_surface (drop j ss)"
proof -
  assume j: "j \<le> length ss"
  have "dropWhile near_surface (drop j ss) =
      drop (length (takeWhile near_surface (drop j ss))) (drop j ss)"
    by (rule dropWhile_eq_drop)
  also have "\<dots> = drop (scan_end ss j) ss"
    using j by (simp add: scan_end_takeWhile add.commute)
  finally show ?thesis by simp
qed

lemma scan_end_not_near:
  assumes j: "j \<le> length ss" and lt: "scan_end ss j < length ss"
  shows "\<not> near_surface (ss ! scan_end ss j)"
proof -
  have eq: "dropWhile near_surface (drop j ss) = drop (scan_end ss j) ss"
    using drop_scan_end [OF j] by (rule sym)
  have ne: "drop (scan_end ss j) ss \<noteq> []" using lt by simp
  have "dropWhile near_surface (drop j ss) \<noteq> []" unfolding eq by (rule ne)
  then have "\<not> near_surface (hd (dropWhile near_surface (drop j ss)))"
    by (rule hd_dropWhile)
  then have "\<not> near_surface (hd (drop (scan_end ss j) ss))" unfolding eq .
  then show ?thesis using lt by (simp add: hd_drop_conv_nth)
qed

lemma last_run:
  assumes "i < length ss" "scan_end ss (i + 1) \<le> length ss"
  shows "last (ss ! i # takeWhile near_surface (drop (i + 1) ss)) = ss ! (scan_end ss (i + 1) - 1)"
proof -
  let ?e = "scan_end ss (i + 1)"
  let ?tw = "takeWhile near_surface (drop (i + 1) ss)"
  from assms have e: "?e = i + 1 + length ?tw" by (simp add: scan_end_takeWhile)
  show ?thesis
  proof (cases "?tw = []")
    case True
    with e show ?thesis by simp
  next
    case False
    then have pos: "length ?tw - 1 < length ?tw" by simp
    from False have "last (ss ! i # ?tw) = last ?tw" by simp
    also have "\<dots> = ?tw ! (length ?tw - 1)" using False by (rule last_conv_nth)
    also have "\<dots> = drop (i + 1) ss ! (length ?tw - 1)"
      using pos by (rule takeWhile_nth)
    also have "\<dots> = ss ! (i + 1 + (length ?tw - 1))"
      using assms(1) by (intro nth_drop) simp
    also have "i + 1 + (length ?tw - 1) = ?e - 1" using pos e by linarith
    finally show ?thesis .
  qed
qed

lemma surface_runs_alternate:
  "Suc i < length (surface_runs xs) \<Longrightarrow>
   near_surface (hd (surface_runs xs ! Suc i)) \<noteq> near_surface (hd (surface_runs xs ! i))"
proof (induction xs arbitrary: i rule: surface_runs.induct)
  case 1
  then show ?case by simp
next
  case (2 x xs)
  let ?P = "\<lambda>y. near_surface y = near_surface x"
  let ?dw = "dropWhile ?P xs"
  show ?case
  proof (cases i)
    case 0
    from "2.prems" 0 have ne: "?dw \<noteq> []" by auto
    then obtain y ys where dw: "?dw = y # ys" by (cases ?dw) auto
    from ne have "\<not> ?P (hd ?dw)" by (rule hd_dropWhile)
    with dw have "near_surface y \<noteq> near_surface x" by simp
    with 0 dw show ?thesis by simp
  next
    case (Suc k)
    with "2.prems" have "Suc k < length (surface_runs ?dw)" by simp
    from "2.IH" [OF this] Suc show ?thesis by simp
  qed
qed

lemma surface_loop_excised:
  "surface_loop ss i duration = duration - excised_time (drop i ss)"
proof (induction ss i duration rule: surface_loop.induct)
  case (1 ss i duration)
  note unf = surface_loop.simps [of ss i duration]
  show ?case
  proof (cases "i < length ss")
    case False
    then show ?thesis unfolding unf by (simp add: excised_time_def)
  next
    case True
    then have d: "drop i ss = ss ! i # drop (i + 1) ss" by (simp add: Cons_nth_drop_Suc)
    show ?thesis
    proof (cases "depth_mm (ss ! i) < 100")
      case deep: False
      then have "\<not> near_surface (ss ! i)" by (simp add: near_surface_def)
      then have "excised_time (drop i ss) = excised_time (drop (i + 1) ss)"
        by (simp add: d excised_deep)
      moreover from True deep 1(3) have "surface_loop ss (i + 1) duration = duration - excised_time (drop (i + 1) ss)"
        by simp
      ultimately show ?thesis unfolding unf using True deep by simp
    next
      case near: True
      then have ns: "near_surface (ss ! i)" by (simp add: near_surface_def)
      let ?e = "scan_end ss (i + 1)"
      from True have j: "i + 1 \<le> length ss" by simp
      have ge: "i + 1 \<le> ?e" by (rule scan_end_ge)
      show ?thesis
      proof (cases "?e < length ss")
        case interior: True
        have dw: "dropWhile near_surface (drop (i + 1) ss) = drop ?e ss"
          using drop_scan_end [OF j] by simp
        from interior have de: "drop ?e ss = ss ! ?e # drop (?e + 1) ss"
          by (simp add: Cons_nth_drop_Suc)
        have deep_e: "\<not> near_surface (ss ! ?e)" using scan_end_not_near [OF j interior] .
        have ne: "dropWhile near_surface (drop (i + 1) ss) \<noteq> []"
          unfolding dw using interior by simp
        have lr: "last (ss ! i # takeWhile near_surface (drop (i + 1) ss)) = ss ! (?e - 1)"
          using True interior by (intro last_run) simp_all
        have "excised_time (drop i ss) = excised_time (ss ! i # drop (i + 1) ss)"
          by (simp only: d)
        also have "\<dots> = time_seconds (last (ss ! i # takeWhile near_surface (drop (i + 1) ss))) -
            time_seconds (ss ! i) + excised_time (dropWhile near_surface (drop (i + 1) ss))"
          using ne by (simp only: excised_near [OF ns] if_False)
        finally have "excised_time (drop i ss) =
            time_seconds (ss ! (?e - 1)) - time_seconds (ss ! i) + excised_time (drop ?e ss)"
          by (simp only: lr dw)
        also have "excised_time (drop ?e ss) = excised_time (drop (?e + 1) ss)"
          by (subst de) (rule excised_deep [OF deep_e])
        finally have ex: "excised_time (drop i ss) =
            time_seconds (ss ! (?e - 1)) - time_seconds (ss ! i) + excised_time (drop (?e + 1) ss)" .
        from ge have e1: "?e - 1 + 1 + 1 = ?e + 1" by simp
        from 1(1) [OF True near refl interior]
        have "surface_loop ss (?e - 1 + 1 + 1)
              (duration - (time_seconds (ss ! (?e - 1)) - time_seconds (ss ! i))) =
            duration - (time_seconds (ss ! (?e - 1)) - time_seconds (ss ! i)) -
            excised_time (drop (?e - 1 + 1 + 1) ss)" .
        moreover have "surface_loop ss i duration = surface_loop ss (?e - 1 + 1 + 1)
              (duration - (time_seconds (ss ! (?e - 1)) - time_seconds (ss ! i)))"
          unfolding unf using True near interior by (simp add: Let_def)
        ultimately show ?thesis unfolding e1 ex by simp
      next
        case trailing: False
        have dw: "dropWhile near_surface (drop (i + 1) ss) = []"
          using drop_scan_end [OF j] trailing by simp
        then have all: "list_all near_surface (drop (i + 1) ss)"
          by (simp add: list_all_iff dropWhile_eq_Nil_conv)
        have "excised_time (drop i ss) = 0" using dw by (simp add: d excised_near [OF ns])
        moreover have "excised_time (drop (i + 1) ss) = 0" using all by (rule excised_all_near)
        moreover from 1(2) [OF True near refl trailing]
        have "surface_loop ss (i + 1) duration = duration - excised_time (drop (i + 1) ss)" .
        moreover have "surface_loop ss i duration = surface_loop ss (i + 1) duration"
          unfolding unf using True near trailing by (simp add: Let_def)
        ultimately show ?thesis by simp
      qed
    qed
  qed
qed

lemma surface_dive_runs:
  "surface_runs (sample surface_dive) =
     [[\<lparr>time_seconds = 0, depth_mm = 0\<rparr>, \<lparr>time_seconds = 10, depth_mm = 50\<rparr>],
      [\<lparr>time_seconds = 20, depth_mm = 5000\<rparr>, \<lparr>time_seconds = 30, depth_mm = 8000\<rparr>],
      [\<lparr>time_seconds = 40, depth_mm = 20\<rparr>, \<lparr>time_seconds = 55, depth_mm = 30\<rparr>],
      [\<lparr>time_seconds = 60, depth_mm = 6000\<rparr>],
      [\<lparr>time_seconds = 70, depth_mm = 10\<rparr>, \<lparr>time_seconds = 100, depth_mm = 0\<rparr>]]"
  by (simp add: surface_dive_def near_surface_def)

text \<open>
  Claim C7. The duration \<open>calculate_sac\<close> divides by is the duration of the dive minus
  the length of every maximal contiguous run of samples shallower than 100 mm that ends
  before the last sample; a run that reaches the last sample is not subtracted. The loop of
  the source computes exactly \<open>excised_time\<close>, and \<open>calculate_sac\<close> is its formula over
  that duration.
\<close>

theorem sac_duration_excises_interior_surface_runs:
  "surface_loop (sample d) 0 (duration_seconds d) =
     duration_seconds d - excised_time (sample d) \<and>
   calculate_sac d =
     (let airuse = calculate_airuse d in
      if airuse = 0 then Inr 0
      else if duration_seconds d = 0 then Inr 0
      else
        let duration = duration_seconds d - excised_time (sample d);
            pressure = 1 + real_of_int (meandepth_mm d) / 10000
        in if duration = 0 \<or> pressure = 0 then Inl ConversionUndefined
           else
             let sac = airuse / pressure * 60 / real_of_int duration;
                 r = double_to_int (sac * 1000)
             in if - (2 ^ 31) \<le> r \<and> r < 2 ^ 31 then Inr r else Inl ConversionUndefined)"
  unfolding calculate_sac_def surface_loop_excised drop_0 by simp

theorem sac_duration_excises_interior_surface_runs_witness:
  "excised_time (sample surface_dive) = 25 \<and>
   surface_loop (sample surface_dive) 0 (duration_seconds surface_dive) = 75"
proof -
  have e: "excised_time (sample surface_dive) = 25"
    unfolding excised_time_def surface_dive_runs by (simp add: near_surface_def)
  have d: "duration_seconds surface_dive = 100" by (simp add: surface_dive_def)
  from sac_duration_excises_interior_surface_runs [of surface_dive] e d show ?thesis by simp
qed

section \<open>Properties of the selection\<close>

lemma get_dive_Some_iff:
  "get_dive tbl idx \<noteq> None \<longleftrightarrow> 0 \<le> idx \<and> idx < int (length tbl)"
  by (simp add: get_dive_def)

lemma get_dive_nth: "get_dive tbl idx = Some d \<Longrightarrow> d = tbl ! nat idx \<and> 0 \<le> idx \<and> nat idx < length tbl"
  by (auto simp: get_dive_def split: if_splits)

lemma selected_children_loop_or:
  "list_all (\<lambda>(child, idx). 0 \<le> idx \<and> idx < int (length (dive_table st))) kids \<Longrightarrow>
   selected_children_loop kids st = Inr (list_ex (\<lambda>(child, idx). member_selected st idx) kids)"
  by (induction kids) (auto simp: member_selected_def get_dive_def split: option.splits)

lemma select_dive_fields [simp]:
  "treemodel (select_dive p sel st) = treemodel st"
  "listmodel (select_dive p sel st) = listmodel st"
  "model (select_dive p sel st) = model st"
  "length (dive_table (select_dive p sel st)) = length (dive_table st)"
  by (simp_all add: select_dive_def)

lemma select_dive_selected:
  "p < length (dive_table st) \<Longrightarrow>
   selected (dive_table (select_dive p sel st) ! q) = (if q = p then sel else selected (dive_table st ! q))"
  by (auto simp: select_dive_def nth_list_update)

lemma select_group_loop_result:
  assumes "list_all (\<lambda>(child, idx). 0 \<le> idx \<and> idx < int (length (dive_table st))) kids"
  shows "\<exists>st'. select_group_loop kids first sel st = Inr st' \<and>
     length (dive_table st') = length (dive_table st) \<and>
     treemodel st' = treemodel st \<and> listmodel st' = listmodel st \<and> model st' = model st \<and>
     (\<forall>p<length (dive_table st). selected (dive_table st' ! p) =
        (if int p \<in> snd ` set kids then sel else selected (dive_table st ! p)))"
  using assms
proof (induction kids arbitrary: st first)
  case Nil
  then show ?case by simp
next
  case (Cons kid kids)
  obtain child idx where kid: "kid = (child, idx)" by (cases kid)
  define st1 where "st1 = (if first \<and> sel then st\<lparr>selected_dive := idx\<rparr> else st)"
  have t1: "dive_table st1 = dive_table st" "treemodel st1 = treemodel st"
    "listmodel st1 = listmodel st" "model st1 = model st"
    by (simp_all add: st1_def)
  from Cons.prems kid have v: "0 \<le> idx" "idx < int (length (dive_table st))"
    and rest: "list_all (\<lambda>(child, idx). 0 \<le> idx \<and> idx < int (length (dive_table st))) kids"
    by simp_all
  from v have g: "get_dive (dive_table st1) idx = Some (dive_table st ! nat idx)"
    by (simp add: get_dive_def t1)
  from v have pn: "nat idx < length (dive_table st)" by simp
  show ?case
  proof (cases "selected (dive_table st ! nat idx) = sel")
    case True
    have step: "select_group_loop (kid # kids) first sel st = select_group_loop kids False sel st1"
      using True g by (simp add: kid st1_def Let_def)
    from rest have "list_all (\<lambda>(child, idx). 0 \<le> idx \<and> idx < int (length (dive_table st1))) kids"
      by (simp add: t1)
    from Cons.IH [OF this, of False] obtain st' where
      r: "select_group_loop kids False sel st1 = Inr st'"
        "length (dive_table st') = length (dive_table st1)"
        "treemodel st' = treemodel st1" "listmodel st' = listmodel st1" "model st' = model st1"
        "\<forall>p<length (dive_table st1). selected (dive_table st' ! p) =
          (if int p \<in> snd ` set kids then sel else selected (dive_table st1 ! p))"
      by blast
    have "\<forall>p<length (dive_table st). selected (dive_table st' ! p) =
        (if int p \<in> snd ` set (kid # kids) then sel else selected (dive_table st ! p))"
    proof (intro allI impI)
      fix p assume p: "p < length (dive_table st)"
      with r(6) have e: "selected (dive_table st' ! p) =
          (if int p \<in> snd ` set kids then sel else selected (dive_table st ! p))"
        by (simp add: t1)
      show "selected (dive_table st' ! p) =
        (if int p \<in> snd ` set (kid # kids) then sel else selected (dive_table st ! p))"
      proof (cases "int p = idx")
        case True
        then have "nat idx = p" by simp
        with e \<open>selected (dive_table st ! nat idx) = sel\<close> True show ?thesis
          by (simp add: kid)
      next
        case False
        with e show ?thesis by (simp add: kid)
      qed
    qed
    with r step show ?thesis by (simp add: t1)
  next
    case False
    define st2 where "st2 = select_dive (nat idx) sel st1"
    define st3 where "st3 = (if sel then st2\<lparr>gtk_selection := insert child (gtk_selection st2)\<rparr>
                       else st2\<lparr>gtk_selection := gtk_selection st2 - {child}\<rparr>)"
    have t3: "dive_table st3 = dive_table st2" "treemodel st3 = treemodel st"
      "listmodel st3 = listmodel st" "model st3 = model st"
      "length (dive_table st3) = length (dive_table st)"
      by (simp_all add: st3_def st2_def t1)
    have step: "select_group_loop (kid # kids) first sel st = select_group_loop kids False sel st3"
      using False g by (simp add: kid st1_def st2_def st3_def Let_def)
    from rest have "list_all (\<lambda>(child, idx). 0 \<le> idx \<and> idx < int (length (dive_table st3))) kids"
      by (simp add: t3(5))
    from Cons.IH [OF this, of False] obtain st' where
      r: "select_group_loop kids False sel st3 = Inr st'"
        "length (dive_table st') = length (dive_table st3)"
        "treemodel st' = treemodel st3" "listmodel st' = listmodel st3" "model st' = model st3"
        "\<forall>p<length (dive_table st3). selected (dive_table st' ! p) =
          (if int p \<in> snd ` set kids then sel else selected (dive_table st3 ! p))"
      by blast
    have s3: "selected (dive_table st3 ! q) = (if q = nat idx then sel else selected (dive_table st ! q))" for q
      using pn by (simp add: t3 st2_def select_dive_selected t1)
    have "\<forall>p<length (dive_table st). selected (dive_table st' ! p) =
        (if int p \<in> snd ` set (kid # kids) then sel else selected (dive_table st ! p))"
    proof (intro allI impI)
      fix p assume p: "p < length (dive_table st)"
      with r(6) have e: "selected (dive_table st' ! p) =
          (if int p \<in> snd ` set kids then sel else selected (dive_table st3 ! p))"
        by (simp add: t3(5))
      show "selected (dive_table st' ! p) =
        (if int p \<in> snd ` set (kid # kids) then sel else selected (dive_table st ! p))"
      proof (cases "int p = idx")
        case True
        then have "p = nat idx" by simp
        with e s3 [of p] True show ?thesis by (simp add: kid)
      next
        case False
        then have "p \<noteq> nat idx" using v by auto
        with e s3 [of p] False show ?thesis by (simp add: kid)
      qed
    qed
    with r step show ?thesis by (simp add: t3(2-5))
  qed
qed

lemma members_valid_range:
  "members_valid m it st \<longleftrightarrow>
   list_all (\<lambda>(child, idx). 0 \<le> idx \<and> idx < int (length (dive_table st))) (iter_children (the_model st m) it)"
  by (simp add: members_valid_def get_dive_def split_def)

lemma the_model_cong:
  "treemodel st' = treemodel st \<Longrightarrow> listmodel st' = listmodel st \<Longrightarrow> the_model st' m = the_model st m"
  by (simp add: the_model_def split: model_id.splits)

lemma selected_children_or:
  "members_valid m it st \<Longrightarrow>
   selected_children m it st =
     Inr (list_ex (\<lambda>(child, idx). member_selected st idx) (iter_children (the_model st m) it))"
  unfolding selected_children_def members_valid_range by (rule selected_children_loop_or)

lemma select_dive_group_change:
  assumes valid: "members_valid m it st"
    and nonempty: "iter_children (the_model st m) it \<noteq> []"
    and cur: "selected_children m it st = Inr cur" and ne: "sel \<noteq> cur"
  shows "\<exists>st'. select_dive_group m it sel st = Inr st' \<and>
    list_all (\<lambda>(child, idx). member_selected st' idx = sel) (iter_children (the_model st m) it) \<and>
    iter_children (the_model st' m) it = iter_children (the_model st m) it \<and>
    members_valid m it st' \<and>
    selected_children m it st' = Inr sel"
proof -
  let ?kids = "iter_children (the_model st m) it"
  from valid have range: "list_all (\<lambda>(child, idx). 0 \<le> idx \<and> idx < int (length (dive_table st))) ?kids"
    by (simp add: members_valid_range)
  from select_group_loop_result [OF range, of True sel] obtain st' where
    r: "select_group_loop ?kids True sel st = Inr st'"
      "length (dive_table st') = length (dive_table st)"
      "treemodel st' = treemodel st" "listmodel st' = listmodel st" "model st' = model st"
      "\<forall>p<length (dive_table st). selected (dive_table st' ! p) =
          (if int p \<in> snd ` set ?kids then sel else selected (dive_table st ! p))"
    by blast
  have g: "select_dive_group m it sel st = Inr st'"
    using cur ne r(1) by (simp add: select_dive_group_def)
  have tm: "the_model st' m = the_model st m" using r(3,4) by (rule the_model_cong)
  have all: "list_all (\<lambda>(child, idx). member_selected st' idx = sel) ?kids"
    unfolding list_all_iff
  proof (intro ballI)
    fix kid assume k: "kid \<in> set ?kids"
    obtain child idx where kid: "kid = (child, idx)" by (cases kid)
    from range k kid have v: "0 \<le> idx" "idx < int (length (dive_table st))"
      by (auto simp: list_all_iff)
    then have p: "nat idx < length (dive_table st)" by simp
    from k kid have "int (nat idx) \<in> snd ` set ?kids" using v by force
    with r(6) p have "selected (dive_table st' ! nat idx) = sel" by simp
    with v r(2) show "case kid of (child, idx) \<Rightarrow> member_selected st' idx = sel"
      by (simp add: kid member_selected_def get_dive_def)
  qed
  have valid': "members_valid m it st'"
    using range by (simp add: members_valid_range tm r(2))
  have "list_ex (\<lambda>(child, idx). member_selected st' idx) ?kids = sel"
  proof (cases sel)
    case True
    from nonempty obtain kid where "kid \<in> set ?kids" by (cases ?kids) auto
    with all True show ?thesis by (cases kid) (auto simp: list_ex_iff list_all_iff)
  next
    case False
    with all show ?thesis by (auto simp: list_ex_iff list_all_iff)
  qed
  with selected_children_or [OF valid'] have "selected_children m it st' = Inr sel"
    by (simp add: tm)
  with g all tm valid' show ?thesis by simp
qed

lemma trip_state_children:
  "iter_children (the_model trip_state TreeModel) [0] = [([0, 0], 2), ([0, 1], 1)]"
  by (simp add: trip_state_def the_model_def iter_children_def index_row_def blank_columns_def upt_rec)

lemma stale_state_children:
  "iter_children (the_model stale_state (model stale_state)) [0] = [([0, 0], 2), ([0, 1], 1)]"
  by (simp add: stale_state_def trip_state_def the_model_def iter_children_def index_row_def blank_columns_def upt_rec)

text \<open>
  Claim C2. For a group row with at least one member, all members being dives of the
  table, and a requested state \<open>sel\<close>: the current state of the group, as
  \<open>selected_children\<close> computes it, is the disjunction of the members' \<open>selected\<close>
  flags. If \<open>sel\<close> differs from it, \<open>select_dive_group\<close> sets the flag of every member
  to \<open>sel\<close> and the state of the group is \<open>sel\<close> afterwards; if \<open>sel\<close> equals it,
  nothing changes. Selecting a group none of whose members is selected selects them all,
  and deselecting it then deselects them all.
\<close>

theorem select_dive_group_toggle:
  assumes valid: "members_valid m it st"
    and nonempty: "iter_children (the_model st m) it \<noteq> []"
  shows "\<exists>cur. selected_children m it st = Inr cur \<and>
    cur = list_ex (\<lambda>(child, idx). member_selected st idx) (iter_children (the_model st m) it) \<and>
    (sel \<noteq> cur \<longrightarrow>
       (\<exists>st'. select_dive_group m it sel st = Inr st' \<and>
          list_all (\<lambda>(child, idx). member_selected st' idx = sel) (iter_children (the_model st m) it) \<and>
          selected_children m it st' = Inr sel)) \<and>
    (sel = cur \<longrightarrow> select_dive_group m it sel st = Inr st) \<and>
    (\<not> cur \<longrightarrow>
       (\<exists>st1 st2. select_dive_group m it True st = Inr st1 \<and>
          list_all (\<lambda>(child, idx). member_selected st1 idx) (iter_children (the_model st m) it) \<and>
          selected_children m it st1 = Inr True \<and>
          select_dive_group m it False st1 = Inr st2 \<and>
          list_all (\<lambda>(child, idx). \<not> member_selected st2 idx) (iter_children (the_model st m) it) \<and>
          selected_children m it st2 = Inr False))"
proof -
  let ?kids = "iter_children (the_model st m) it"
  let ?cur = "list_ex (\<lambda>(child, idx). member_selected st idx) ?kids"
  have cur: "selected_children m it st = Inr ?cur" using valid by (rule selected_children_or)
  have change: "sel \<noteq> ?cur \<longrightarrow>
       (\<exists>st'. select_dive_group m it sel st = Inr st' \<and>
          list_all (\<lambda>(child, idx). member_selected st' idx = sel) ?kids \<and>
          selected_children m it st' = Inr sel)"
  proof
    assume "sel \<noteq> ?cur"
    from select_dive_group_change [OF valid nonempty cur this]
    show "\<exists>st'. select_dive_group m it sel st = Inr st' \<and>
          list_all (\<lambda>(child, idx). member_selected st' idx = sel) ?kids \<and>
          selected_children m it st' = Inr sel" by blast
  qed
  have same: "sel = ?cur \<longrightarrow> select_dive_group m it sel st = Inr st"
    using cur by (simp add: select_dive_group_def)
  have twice: "\<not> ?cur \<longrightarrow>
       (\<exists>st1 st2. select_dive_group m it True st = Inr st1 \<and>
          list_all (\<lambda>(child, idx). member_selected st1 idx) ?kids \<and>
          selected_children m it st1 = Inr True \<and>
          select_dive_group m it False st1 = Inr st2 \<and>
          list_all (\<lambda>(child, idx). \<not> member_selected st2 idx) ?kids \<and>
          selected_children m it st2 = Inr False)"
  proof
    assume n: "\<not> ?cur"
    then have "True \<noteq> ?cur" by simp
    from select_dive_group_change [OF valid nonempty cur this] obtain st1 where
      a: "select_dive_group m it True st = Inr st1"
        "list_all (\<lambda>(child, idx). member_selected st1 idx = True) ?kids"
        "iter_children (the_model st1 m) it = ?kids"
        "members_valid m it st1" "selected_children m it st1 = Inr True"
      by blast
    from nonempty a(3) have ne1: "iter_children (the_model st1 m) it \<noteq> []" by simp
    have "False \<noteq> True" by simp
    from select_dive_group_change [OF a(4) ne1 a(5) this] obtain st2 where
      b: "select_dive_group m it False st1 = Inr st2"
        "list_all (\<lambda>(child, idx). member_selected st2 idx = False) (iter_children (the_model st1 m) it)"
        "selected_children m it st2 = Inr False"
      by blast
    from a b show "\<exists>st1 st2. select_dive_group m it True st = Inr st1 \<and>
          list_all (\<lambda>(child, idx). member_selected st1 idx) ?kids \<and>
          selected_children m it st1 = Inr True \<and>
          select_dive_group m it False st1 = Inr st2 \<and>
          list_all (\<lambda>(child, idx). \<not> member_selected st2 idx) ?kids \<and>
          selected_children m it st2 = Inr False"
      by (auto simp: split_def)
  qed
  from cur change same twice show ?thesis by blast
qed

theorem select_dive_group_toggle_witness:
  "members_valid TreeModel [0] trip_state \<and>
   iter_children (the_model trip_state TreeModel) [0] = [([0, 0], 2), ([0, 1], 1)] \<and>
   selected_children TreeModel [0] trip_state = Inr False \<and>
   (\<exists>st1 st2. select_dive_group TreeModel [0] True trip_state = Inr st1 \<and>
      member_selected st1 2 \<and> member_selected st1 1 \<and>
      selected_children TreeModel [0] st1 = Inr True \<and>
      select_dive_group TreeModel [0] False st1 = Inr st2 \<and>
      \<not> member_selected st2 2 \<and> \<not> member_selected st2 1 \<and>
      selected_children TreeModel [0] st2 = Inr False)"
proof -
  have v: "members_valid TreeModel [0] trip_state"
    unfolding members_valid_def trip_state_children by (simp add: trip_state_def get_dive_def)
  have n: "iter_children (the_model trip_state TreeModel) [0] \<noteq> []"
    by (simp add: trip_state_children)
  have c: "list_ex (\<lambda>(child, idx). member_selected trip_state idx)
      (iter_children (the_model trip_state TreeModel) [0]) = False"
    unfolding trip_state_children
    by (simp add: member_selected_def trip_state_def get_dive_def alloc_dive_def)
  from select_dive_group_toggle [OF v n, of True] v c show ?thesis
    unfolding trip_state_children by auto
qed

text \<open>
  Claim C1. The claim asks that an index without a dive in the table is skipped. On the
  models of a table that has shrunk to one dive, where a child row still names the dive 2:
  \<open>set_one_dive\<close> tests the NULL and returns without a change, while
  \<open>row_expanded_cb\<close> and \<open>check_selection_cb\<close> dereference the NULL.
\<close>

theorem absent_dive_evaluation:
  "get_dive (dive_table stale_state) 2 = None \<and>
   row_expanded_cb [0] stale_state = Inl NullDereference \<and>
   check_selection_cb [0, 0] stale_state = Inl NullDereference \<and>
   set_one_dive TreeModel [0, 0] None stale_state = (True, stale_state)"
proof -
  have g: "get_dive (dive_table stale_state) 2 = None"
    by (simp add: stale_state_def get_dive_def)
  have i: "get_index (the_model stale_state (model stale_state)) [0, 0] = Some 2"
    by (simp add: stale_state_def trip_state_def the_model_def get_index_def index_row_def blank_columns_def)
  have i': "get_index (the_model stale_state TreeModel) [0, 0] = Some 2"
    by (simp add: stale_state_def trip_state_def the_model_def get_index_def index_row_def blank_columns_def)
  have r: "row_expanded_cb [0] stale_state = Inl NullDereference"
    unfolding row_expanded_cb_def stale_state_children by (simp add: g)
  have c: "check_selection_cb [0, 0] stale_state = Inl NullDereference"
    unfolding check_selection_cb_def i by (simp add: g)
  have s: "set_one_dive TreeModel [0, 0] None stale_state = (True, stale_state)"
    unfolding set_one_dive_def i' by (simp add: g)
  from g r c s show ?thesis by simp
qed

section \<open>Properties of the trip grouping\<close>

lemma update_summary_frame [simp]:
  "trips (update_summary v st) = trips st"
  "dive_table (update_summary v st) = dive_table st"
  "dive_trip_list (update_summary v st) = dive_trip_list st"
  "autogroup (update_summary v st) = autogroup st"
  "trips_allocated (update_summary v st) = trips_allocated st"
  by (simp_all add: update_summary_def split: option.splits)

lemma store_dive_frame [simp]:
  "trips (store_dive i v st) = trips st"
  "dive_table (store_dive i v st) = dive_table st"
  "dive_trip_list (store_dive i v st) = dive_trip_list st"
  "autogroup (store_dive i v st) = autogroup st"
  "trips_allocated (store_dive i v st) = trips_allocated st"
  by (simp_all add: store_dive_def Let_def)

lemma new_trip_when:
  assumes "new_trip v st = (v', st')"
  shows "dive_table st' = dive_table st"
    and "dive_trip v' \<noteq> Some t \<Longrightarrow> dive_when (trips st' t) = dive_when (trips st t)"
  using assms by (auto simp: new_trip_def Let_def)

lemma choose_trip_when:
  assumes "choose_trip fits d v st = (v', st')"
  shows "dive_table st' = dive_table st"
    and "dive_trip v' \<noteq> Some t \<Longrightarrow> dive_when (trips st' t) = dive_when (trips st t)"
proof -
  have c: "st' = st \<or> (\<exists>v0. new_trip v0 st = (v', st')) \<or>
      (\<exists>t0. dive_trip v' = Some t0 \<and>
         st' = st\<lparr>trips := (trips st)(t0 := (trips st t0)\<lparr>number := 0\<rparr>)\<rparr>)"
    using assms
    by (auto simp: choose_trip_def Let_def split: if_splits option.splits)
  then show "dive_table st' = dive_table st"
    by (auto dest: new_trip_when(1))
  assume n: "dive_trip v' \<noteq> Some t"
  from c show "dive_when (trips st' t) = dive_when (trips st t)"
  proof (elim disjE exE conjE)
    assume "st' = st"
    then show ?thesis by simp
  next
    fix v0 assume "new_trip v0 st = (v', st')"
    from new_trip_when(2) [OF this n] show ?thesis .
  next
    fix t0 assume "dive_trip v' = Some t0"
      and "st' = st\<lparr>trips := (trips st)(t0 := (trips st t0)\<lparr>number := 0\<rparr>)\<rparr>"
    with n show ?thesis by auto
  qed
qed

lemma map_when_update:
  "map dive_when (xs[i := (xs ! i)\<lparr>tripflag := f\<rparr>]) = map dive_when xs"
  by (cases "i < length xs") (simp_all add: map_update list_update_same_conv list_update_beyond)

lemma attach_dive_when:
  assumes "attach_dive i v st = (v', st')"
  shows "map dive_when (dive_table st') = map dive_when (dive_table st)"
    and "dive_trip v' = dive_trip v"
    and "dive_trip v = Some t \<Longrightarrow> dive_when (trips st' t) = dive_when (dive_table st ! i)"
    and "dive_trip v \<noteq> Some t \<Longrightarrow> dive_when (trips st' t) = dive_when (trips st t)"
  using assms
  by (auto simp: attach_dive_def Let_def map_when_update split: option.splits if_splits)

lemma fill_body_when:
  assumes "fill_body fits i (v, st) = (v', st')"
  shows "map dive_when (dive_table st') = map dive_when (dive_table st)"
    and "dive_trip v' = Some t \<Longrightarrow> dive_when (trips st' t) = dive_when (dive_table st ! i)"
    and "dive_trip v' \<noteq> Some t \<Longrightarrow> dive_when (trips st' t) = dive_when (trips st t)"
proof -
  define st1 where "st1 = update_summary v st"
  define v1 where "v1 = (case trip v of None \<Rightarrow> v | Some t \<Rightarrow> v\<lparr>dive_trip := Some t\<rparr>)"
  obtain v2 st2 where c: "choose_trip fits (dive_table st1 ! i) v1 st1 = (v2, st2)"
    by (cases "choose_trip fits (dive_table st1 ! i) v1 st1")
  obtain v3 st3 where a: "attach_dive i v2 st2 = (v3, st3)"
    by (cases "attach_dive i v2 st2")
  from assms c a have r: "v' = v3" "st' = store_dive i v3 st3"
    by (auto simp: fill_body_def Let_def st1_def v1_def)
  have t2: "dive_table st2 = dive_table st"
    using choose_trip_when(1) [OF c] by (simp add: st1_def)
  show "map dive_when (dive_table st') = map dive_when (dive_table st)"
    using attach_dive_when(1) [OF a] by (simp add: r t2)
  have d3: "dive_trip v3 = dive_trip v2" using attach_dive_when(2) [OF a] .
  show "dive_when (trips st' t) = dive_when (dive_table st ! i)" if "dive_trip v' = Some t"
    using attach_dive_when(3) [OF a, of t] that by (simp add: r d3 t2)
  show "dive_when (trips st' t) = dive_when (trips st t)" if "dive_trip v' \<noteq> Some t"
  proof -
    from that have n: "dive_trip v2 \<noteq> Some t" by (simp add: r d3)
    have "dive_when (trips st' t) = dive_when (trips st2 t)"
      using attach_dive_when(4) [OF a n] by (simp add: r)
    also have "\<dots> = dive_when (trips st1 t)" using choose_trip_when(2) [OF c n] .
    finally show ?thesis by (simp add: st1_def)
  qed
qed

lemma fill_range_step:
  "lo < hi \<Longrightarrow> fill_range fits lo hi vs = fill_body fits lo (fill_range fits (Suc lo) hi vs)"
proof (induction hi arbitrary: vs)
  case 0
  then show ?case by simp
next
  case (Suc hi)
  show ?case
  proof (cases "lo = hi")
    case True
    then show ?thesis by (cases hi) simp_all
  next
    case False
    with Suc.prems have "lo < hi" by simp
    from Suc.IH [OF this] Suc.prems \<open>lo < hi\<close> show ?thesis by simp
  qed
qed

lemma fill_range_empty: "hi \<le> lo \<Longrightarrow> fill_range fits lo hi vs = vs"
  by (cases hi) simp_all

lemma fill_range_invariant:
  assumes "k \<le> length (dive_table st)"
  shows "map dive_when (dive_table (snd (fill_range fits k (length (dive_table st)) (fill_start st)))) =
      map dive_when (dive_table st) \<and>
    (\<forall>t j. k \<le> j \<and> j < length (dive_table st) \<and> trip_of_dive fits st j = Some t \<and>
       (\<forall>j'. k \<le> j' \<and> j' < j \<longrightarrow> trip_of_dive fits st j' \<noteq> Some t) \<longrightarrow>
       dive_when (trips (snd (fill_range fits k (length (dive_table st)) (fill_start st))) t) =
       dive_when (dive_table st ! j))"
  using assms
proof (induction k rule: inc_induct)
  case base
  show ?case by (simp add: fill_range_empty fill_start_def)
next
  case (step n)
  let ?nr = "length (dive_table st)"
  obtain v1 s1 where a1: "fill_range fits (Suc n) ?nr (fill_start st) = (v1, s1)"
    by (cases "fill_range fits (Suc n) ?nr (fill_start st)")
  obtain v s where a: "fill_range fits n ?nr (fill_start st) = (v, s)"
    by (cases "fill_range fits n ?nr (fill_start st)")
  from fill_range_step [OF step.hyps(2), of fits "fill_start st"] a1 a
  have b: "fill_body fits n (v1, s1) = (v, s)" by simp
  from step.IH a1 have ih1: "map dive_when (dive_table s1) = map dive_when (dive_table st)"
    and ih2: "\<And>t j. Suc n \<le> j \<Longrightarrow> j < ?nr \<Longrightarrow> trip_of_dive fits st j = Some t \<Longrightarrow>
       (\<forall>j'. Suc n \<le> j' \<and> j' < j \<longrightarrow> trip_of_dive fits st j' \<noteq> Some t) \<Longrightarrow>
       dive_when (trips s1 t) = dive_when (dive_table st ! j)"
    by simp_all
  have tn: "trip_of_dive fits st n = dive_trip v" by (simp add: trip_of_dive_def a)
  have m: "map dive_when (dive_table s) = map dive_when (dive_table st)"
    using fill_body_when(1) [OF b] ih1 by simp
  have nth1: "dive_when (dive_table s1 ! n) = dive_when (dive_table st ! n)"
  proof -
    from ih1 have "length (dive_table s1) = ?nr" by (metis length_map)
    with step.hyps(2) have "dive_when (dive_table s1 ! n) = map dive_when (dive_table s1) ! n"
      by simp
    also have "\<dots> = map dive_when (dive_table st) ! n" by (simp only: ih1)
    also have "\<dots> = dive_when (dive_table st ! n)" using step.hyps(2) by simp
    finally show ?thesis .
  qed
  have "dive_when (trips s t) = dive_when (dive_table st ! j)"
    if j: "n \<le> j" "j < ?nr" "trip_of_dive fits st j = Some t"
      and least: "\<forall>j'. n \<le> j' \<and> j' < j \<longrightarrow> trip_of_dive fits st j' \<noteq> Some t" for t j
  proof (cases "j = n")
    case True
    with j tn have "dive_trip v = Some t" by simp
    from fill_body_when(2) [OF b this] nth1 True show ?thesis by simp
  next
    case False
    with j have lt: "n < j" by simp
    with least have "trip_of_dive fits st n \<noteq> Some t" by simp
    with tn have "dive_trip v \<noteq> Some t" by simp
    from fill_body_when(3) [OF b this] have "dive_when (trips s t) = dive_when (trips s1 t)" .
    also have "\<dots> = dive_when (dive_table st ! j)"
      using lt j least by (intro ih2) auto
    finally show ?thesis .
  qed
  with m a show ?case by simp
qed

lemma trips_fill_dive_list:
  "trips (fill_dive_list fits st) =
   trips (snd (fill_range fits 0 (length (dive_table st)) (fill_start st)))"
  by (simp add: fill_dive_list_def split: prod.splits)

lemma trip_when_attached:
  assumes "k < length (dive_table st)" "trip_of_dive fits st k = Some t"
  shows "dive_when (trips (snd (fill_range fits k (length (dive_table st)) (fill_start st))) t) =
    dive_when (dive_table st ! k)"
proof -
  from assms(1) have "k \<le> length (dive_table st)" by simp
  from fill_range_invariant [OF this, of fits]
  have "\<forall>t j. k \<le> j \<and> j < length (dive_table st) \<and> trip_of_dive fits st j = Some t \<and>
       (\<forall>j'. k \<le> j' \<and> j' < j \<longrightarrow> trip_of_dive fits st j' \<noteq> Some t) \<longrightarrow>
       dive_when (trips (snd (fill_range fits k (length (dive_table st)) (fill_start st))) t) =
       dive_when (dive_table st ! j)" by (rule conjunct2)
  moreover have "\<forall>j'. k \<le> j' \<and> j' < k \<longrightarrow> trip_of_dive fits st j' \<noteq> Some t" by auto
  ultimately show ?thesis using assms by blast
qed

lemma trip_when_earliest:
  assumes sorted: "sorted (map dive_when (dive_table st))"
    and ne: "trip_members fits st t \<noteq> []"
  shows "dive_when (trips (fill_dive_list fits st) t) =
    Min (set (map (\<lambda>k. dive_when (dive_table st ! k)) (trip_members fits st t)))"
proof -
  let ?M = "set (trip_members fits st t)"
  let ?nr = "length (dive_table st)"
  have fin: "finite ?M" by simp
  from ne have nonempty: "?M \<noteq> {}" by simp
  define j0 where "j0 = Min ?M"
  have j0: "j0 \<in> ?M" unfolding j0_def using fin nonempty by (rule Min_in)
  then have j0_lt: "j0 < ?nr" and j0_t: "trip_of_dive fits st j0 = Some t"
    by (simp_all add: trip_members_def)
  have least: "\<forall>j'. 0 \<le> j' \<and> j' < j0 \<longrightarrow> trip_of_dive fits st j' \<noteq> Some t"
  proof (intro allI impI notI)
    fix j' assume a: "0 \<le> j' \<and> j' < j0" and b: "trip_of_dive fits st j' = Some t"
    with j0_lt have "j' \<in> ?M" by (simp add: trip_members_def)
    then have "j0 \<le> j'" unfolding j0_def using fin by (intro Min_le)
    with a show False by simp
  qed
  have "\<forall>t j. 0 \<le> j \<and> j < ?nr \<and> trip_of_dive fits st j = Some t \<and>
       (\<forall>j'. 0 \<le> j' \<and> j' < j \<longrightarrow> trip_of_dive fits st j' \<noteq> Some t) \<longrightarrow>
       dive_when (trips (snd (fill_range fits 0 ?nr (fill_start st))) t) =
       dive_when (dive_table st ! j)"
    using fill_range_invariant [of 0 st fits] by simp
  with j0_lt j0_t least
  have "dive_when (trips (snd (fill_range fits 0 ?nr (fill_start st))) t) =
       dive_when (dive_table st ! j0)" by blast
  then have w: "dive_when (trips (fill_dive_list fits st) t) = dive_when (dive_table st ! j0)"
    by (simp add: trips_fill_dive_list)
  have "Min ((\<lambda>k. dive_when (dive_table st ! k)) ` ?M) = dive_when (dive_table st ! j0)"
  proof (rule Min_eqI)
    show "finite ((\<lambda>k. dive_when (dive_table st ! k)) ` ?M)" by simp
    show "dive_when (dive_table st ! j0) \<in> (\<lambda>k. dive_when (dive_table st ! k)) ` ?M"
      using j0 by (rule imageI)
    fix y assume "y \<in> (\<lambda>k. dive_when (dive_table st ! k)) ` ?M"
    then obtain k where k: "k \<in> ?M" "y = dive_when (dive_table st ! k)" by auto
    then have kl: "k < ?nr" by (simp add: trip_members_def)
    from k have "j0 \<le> k" unfolding j0_def using fin by (intro Min_le)
    with sorted kl have "map dive_when (dive_table st) ! j0 \<le> map dive_when (dive_table st) ! k"
      by (intro sorted_nth_mono) simp_all
    with kl j0_lt k show "dive_when (dive_table st ! j0) \<le> y" by simp
  qed
  with w show ?thesis by simp
qed

lemmas fill_eval = fill_dive_list_def fill_start_def fill_body_def update_summary_def
  choose_trip_def new_trip_def attach_dive_def store_dive_def fits_cursor_def
  UNGROUPED_DIVE_def DIVE_IN_TRIP_def g_list_last_def PREV_TRIP_def FIND_TRIP_def
  fits_within_def dive_at_def alloc_dive_def blank_columns_def Let_def

lemmas scenario_simps = eval_nat_numeral three_dives_def fill_eval dive_list_update_dives_def
  summary_of_def trip_members_def trip_of_dive_def upt_rec

lemma first_list: "dive_trip_list (fill_dive_list (fits_within 24) three_dives) = [1, 0]"
  by (simp add: scenario_simps)

lemma first_number_0: "number (trips (fill_dive_list (fits_within 24) three_dives) 0) = 2"
  by (simp add: scenario_simps)

lemma first_when_0: "dive_when (trips (fill_dive_list (fits_within 24) three_dives) 0) = 95"
  by (simp add: scenario_simps)

lemma first_number_1: "number (trips (fill_dive_list (fits_within 24) three_dives) 1) = 1"
  by (simp add: scenario_simps)

lemma first_when_1: "dive_when (trips (fill_dive_list (fits_within 24) three_dives) 1) = 50"
  by (simp add: scenario_simps)

lemma first_tree: "map summary_of (treemodel (fill_dive_list (fits_within 24) three_dives)) =
     [(- 1, 2, 95, [2, 1]), (- 1, 1, 50, [0])]"
  by (simp add: scenario_simps)

lemma first_members_0: "trip_members (fits_within 24) three_dives 0 = [1, 2]"
  by (simp add: scenario_simps)

lemma first_members_1: "trip_members (fits_within 24) three_dives 1 = [0]"
  by (simp add: scenario_simps)

lemma once_number_0: "number (trips (dive_list_update_dives (fits_within 24) three_dives) 0) = 2"
  by (simp add: scenario_simps)

lemma once_tree: "map summary_of (treemodel (dive_list_update_dives (fits_within 24) three_dives)) =
     [(- 1, 2, 95, [2, 1]), (- 1, 1, 50, [0])]"
  by (simp add: scenario_simps)

lemma twice_number_0: "number (trips (dive_list_update_dives (fits_within 24)
     (dive_list_update_dives (fits_within 24) three_dives)) 0) = 4"
  by (simp add: scenario_simps)

lemma twice_number_1: "number (trips (dive_list_update_dives (fits_within 24)
     (dive_list_update_dives (fits_within 24) three_dives)) 1) = 1"
  by (simp add: scenario_simps)

lemma twice_tree: "map summary_of (treemodel (dive_list_update_dives (fits_within 24)
     (dive_list_update_dives (fits_within 24) three_dives))) =
     [(- 1, 4, 95, [2, 1]), (- 1, 1, 50, [0])]"
  by (simp add: scenario_simps)

lemma twice_list: "dive_trip_list (dive_list_update_dives (fits_within 24)
     (dive_list_update_dives (fits_within 24) three_dives)) = [1, 0]"
  by (simp add: scenario_simps)

text \<open>
  Claim C9. Whenever the pass attaches a dive to a trip, the trip's \<open>when\<close> is that
  dive's \<open>when\<close> once the iteration is done. The table being ordered by time, so that the
  pass sees the newest dive first, the \<open>when\<close> of every trip with a member is, at the end
  of the pass, the least \<open>when\<close> of its members. In the scenario of three dives at the
  times 100, 95 and 50 the trip list has two trips: the first trip made has the dives at
  100 and 95 (the indices 2 and 1) as members, the count 2 and the date 95, the second has
  the dive at 50 (the index 0); the tree model shows them so.
\<close>

theorem trip_when_is_earliest_member:
  "(k < length (dive_table st) \<and> trip_of_dive fits st k = Some t \<longrightarrow>
      dive_when (trips (snd (fill_range fits k (length (dive_table st)) (fill_start st))) t) =
      dive_when (dive_table st ! k)) \<and>
   (sorted (map dive_when (dive_table st)) \<and> trip_members fits st t \<noteq> [] \<longrightarrow>
      dive_when (trips (fill_dive_list fits st) t) =
      Min (set (map (\<lambda>k. dive_when (dive_table st ! k)) (trip_members fits st t)))) \<and>
   dive_trip_list (fill_dive_list (fits_within 24) three_dives) = [1, 0] \<and>
   trip_members (fits_within 24) three_dives 0 = [1, 2] \<and>
   trip_members (fits_within 24) three_dives 1 = [0] \<and>
   number (trips (fill_dive_list (fits_within 24) three_dives) 0) = 2 \<and>
   dive_when (trips (fill_dive_list (fits_within 24) three_dives) 0) = 95 \<and>
   number (trips (fill_dive_list (fits_within 24) three_dives) 1) = 1 \<and>
   dive_when (trips (fill_dive_list (fits_within 24) three_dives) 1) = 50 \<and>
   map summary_of (treemodel (fill_dive_list (fits_within 24) three_dives)) =
     [(- 1, 2, 95, [2, 1]), (- 1, 1, 50, [0])]"
  using trip_when_attached [of k st fits t] trip_when_earliest [of st fits t]
    first_list first_members_0 first_members_1 first_number_0 first_when_0
    first_number_1 first_when_1 first_tree
  by blast

theorem trip_when_is_earliest_member_witness:
  "(1::nat) < length (dive_table three_dives) \<and>
   trip_of_dive (fits_within 24) three_dives 1 = Some 0 \<and>
   sorted (map dive_when (dive_table three_dives)) \<and>
   trip_members (fits_within 24) three_dives 0 = [1, 2] \<and>
   dive_when (trips (snd (fill_range (fits_within 24) 1 (length (dive_table three_dives))
       (fill_start three_dives))) 0) = 95 \<and>
   Min (set (map (\<lambda>k. dive_when (dive_table three_dives ! k))
       (trip_members (fits_within 24) three_dives 0))) = 95"
proof -
  have h1: "(1::nat) < length (dive_table three_dives)" by (simp add: three_dives_def)
  have h2: "trip_of_dive (fits_within 24) three_dives 1 = Some 0"
    by (simp add: scenario_simps)
  have h3: "sorted (map dive_when (dive_table three_dives))"
    by (simp add: three_dives_def dive_at_def)
  have h4: "trip_members (fits_within 24) three_dives 0 \<noteq> []"
    by (simp add: first_members_0)
  have d: "dive_when (dive_table three_dives ! 1) = 95"
    by (simp add: three_dives_def dive_at_def)
  from trip_when_is_earliest_member [of 1 three_dives "fits_within 24" 0] h1 h2 h3 h4
  have "dive_when (trips (snd (fill_range (fits_within 24) 1 (length (dive_table three_dives))
       (fill_start three_dives))) 0) = dive_when (dive_table three_dives ! 1)"
    and "dive_when (trips (fill_dive_list (fits_within 24) three_dives) 0) =
      Min (set (map (\<lambda>k. dive_when (dive_table three_dives ! k))
        (trip_members (fits_within 24) three_dives 0)))"
    by blast+
  with h1 h2 h3 d first_when_0 first_members_0 show ?thesis by simp
qed

lemma one_once: "number (trips (dive_list_update_dives (fits_within 24) one_dive) 0) = 1"
  by (simp add: one_dive_def scenario_simps)

lemma one_once_tree: "map summary_of (treemodel (dive_list_update_dives (fits_within 24) one_dive)) =
    [(- 1, 1, 100, [0])]"
  by (simp add: one_dive_def scenario_simps)

lemma one_twice: "number (trips (dive_list_update_dives (fits_within 24)
    (dive_list_update_dives (fits_within 24) one_dive)) 0) = 2"
  by (simp add: one_dive_def scenario_simps)

lemma one_twice_tree: "map summary_of (treemodel (dive_list_update_dives (fits_within 24)
    (dive_list_update_dives (fits_within 24) one_dive))) = [(- 1, 2, 100, [0])]"
  by (simp add: one_dive_def scenario_simps)

lemma one_twice_list: "dive_trip_list (dive_list_update_dives (fits_within 24)
    (dive_list_update_dives (fits_within 24) one_dive)) = [0]"
  by (simp add: one_dive_def scenario_simps)

text \<open>
  Claim C3. Two rebuilds in a row, on the scenario above: the rows of the tree model
  group the dives the same way both times, but the count of the trip the pass starts on
  is 2 after the first rebuild and 4 after the second. The \<open>number\<close> of a trip found
  through \<open>PREV_TRIP\<close> is set back to 0 before it counts again (the second trip: 1 and 1);
  the trip the cursor starts on is never set back. With one dive alone, where the trip
  list never holds more than one trip, the count of its trip is 1 and then 2.
\<close>

theorem rebuild_twice_counts:
  "map summary_of (treemodel (dive_list_update_dives (fits_within 24) three_dives)) =
     [(- 1, 2, 95, [2, 1]), (- 1, 1, 50, [0])] \<and>
   number (trips (dive_list_update_dives (fits_within 24) three_dives) 0) = 2 \<and>
   map summary_of (treemodel (dive_list_update_dives (fits_within 24)
     (dive_list_update_dives (fits_within 24) three_dives))) =
     [(- 1, 4, 95, [2, 1]), (- 1, 1, 50, [0])] \<and>
   number (trips (dive_list_update_dives (fits_within 24)
     (dive_list_update_dives (fits_within 24) three_dives)) 0) = 4 \<and>
   number (trips (dive_list_update_dives (fits_within 24)
     (dive_list_update_dives (fits_within 24) three_dives)) 1) = 1 \<and>
   dive_trip_list (dive_list_update_dives (fits_within 24)
     (dive_list_update_dives (fits_within 24) three_dives)) = [1, 0] \<and>
   map summary_of (treemodel (dive_list_update_dives (fits_within 24) one_dive)) =
     [(- 1, 1, 100, [0])] \<and>
   number (trips (dive_list_update_dives (fits_within 24) one_dive) 0) = 1 \<and>
   map summary_of (treemodel (dive_list_update_dives (fits_within 24)
     (dive_list_update_dives (fits_within 24) one_dive))) = [(- 1, 2, 100, [0])] \<and>
   number (trips (dive_list_update_dives (fits_within 24)
     (dive_list_update_dives (fits_within 24) one_dive)) 0) = 2"
  using once_tree once_number_0 twice_tree twice_number_0 twice_number_1 twice_list
    one_once one_once_tree one_twice one_twice_tree
  by simp


end
